theory Spec2Isabelle
  imports Main "HOL-Library.Word" "HOL-Library.Signed_Division"
begin

unbundle bit_operations_syntax

section \<open>Machine types of objformat.h\<close>

text \<open>
  objformat.h: \<^verbatim>\<open>typedef unsigned char uint8; typedef unsigned int uint24;
  typedef signed int int24;\<close> with the note that on the eZ80 in ADL mode an int has
  24 bits. Addresses and expression values are 24-bit words; a signed reading is
  \<open>sint\<close>, an unsigned one \<open>unat\<close>. A C string is a \<open>string\<close> without its
  terminating NUL.
\<close>

type_synonym uint8 = "8 word"
type_synonym uint24 = "24 word"
type_synonym int24 = "24 word"

definition SECT_CODE :: uint8 where "SECT_CODE = 1"
definition SECT_DATA :: uint8 where "SECT_DATA = 2"
definition SECT_BSS :: uint8 where "SECT_BSS = 3"

definition SYM_LOCAL :: uint8 where "SYM_LOCAL = 0"
definition SYM_EXPORT :: uint8 where "SYM_EXPORT = 1"
definition SYM_EXTERN :: uint8 where "SYM_EXTERN = 2"

definition RELOC_ADDR24 :: uint8 where "RELOC_ADDR24 = 1"

text \<open>\<^verbatim>\<open>str_copy(dest, src, max)\<close>: at most \<open>max - 1\<close> characters of the C string.\<close>

definition str_copy :: "string \<Rightarrow> nat \<Rightarrow> string" where
  "str_copy src maxlen = take (maxlen - 1) src"

text \<open>The C string that starts at offset \<open>off\<close> of a byte buffer (\<^verbatim>\<open>&strtab[off]\<close>).\<close>

definition cstr_at :: "string \<Rightarrow> nat \<Rightarrow> string" where
  "cstr_at buf off = takeWhile (\<lambda>c. c \<noteq> CHR 0x00) (drop off buf)"

section \<open>Linker (ld.c)\<close>

subsection \<open>Names: case-insensitive compare and hash\<close>

definition LD_MAX_OBJECTS :: nat where "LD_MAX_OBJECTS = 128"
definition LD_MAX_SYMBOLS :: nat where "LD_MAX_SYMBOLS = 2048"
definition LD_MAX_EXTERNS :: nat where "LD_MAX_EXTERNS = 1024"
definition LINKER_DEFINED :: int where "LINKER_DEFINED = -1"

text \<open>\<^verbatim>\<open>if (c >= 'A' && c <= 'Z') c += 32;\<close>\<close>

definition ld_lower :: "char \<Rightarrow> char" where
  "ld_lower c = (let n = (of_char c :: nat) in
     if 65 \<le> n \<and> n \<le> 90 then char_of (n + 32) else c)"

text \<open>
  \<^verbatim>\<open>str_casecmp\<close> of ld.c: the difference of the first pair of characters that
  differ after folding, or of the characters where one string ends (a missing character
  is the NUL, 0).
\<close>

fun ld_str_casecmp :: "string \<Rightarrow> string \<Rightarrow> int" where
  "ld_str_casecmp (a # as) (b # bs) =
     (if ld_lower a \<noteq> ld_lower b
      then int (of_char (ld_lower a)) - int (of_char (ld_lower b))
      else ld_str_casecmp as bs)"
| "ld_str_casecmp [] bs = 0 - (case bs of [] \<Rightarrow> 0 | b # _ \<Rightarrow> int (of_char b))"
| "ld_str_casecmp (a # as) [] = int (of_char a)"

text \<open>\<^verbatim>\<open>sym_hash\<close>: djb2 variant over the folded name, reduced to 256 buckets.\<close>

definition sym_hash :: "string \<Rightarrow> nat" where
  "sym_hash name = unat
     (fold (\<lambda>c h. (push_bit 5 h + h) XOR of_nat (of_char (ld_lower c))) name (5381 :: 32 word)
      AND 255)"

subsection \<open>Linker state\<close>

text \<open>
  The parsed content of one object file on disk (objformat.h): the linker re-opens the
  file and seeks to \<open>code_pos\<close>, \<open>sym_pos\<close>, ... whenever it needs a table; the model
  carries the tables themselves.
\<close>

record obj_symbol =
  sy_name_offset :: uint24
  sy_section :: uint8
  sy_flags :: uint8
  sy_value :: uint24

record obj_reloc =
  rl_offset :: uint24
  rl_section :: uint8
  rl_type :: uint8
  rl_target_sect :: uint8
  rl_ext_index :: "16 word"

record obj_extern =
  ex_name_offset :: uint24
  ex_symbol_index :: uint24

record obj_file =
  f_magic :: string
  f_version :: uint8
  f_code :: "uint8 list"
  f_data :: "uint8 list"
  f_bss_size :: uint24
  f_symbols :: "obj_symbol list"
  f_relocs :: "obj_reloc list"
  f_externs :: "obj_extern list"
  f_strtab :: string

record global_symbol =
  g_name :: string
  g_value :: uint24
  g_section :: uint8
  g_obj_index :: int
  g_bucket :: nat

text \<open>
  \<open>g_bucket\<close> stands for the chain links \<open>hash_next\<close>: the chain of bucket \<open>b\<close> is the
  symbols inserted under \<open>b\<close>, newest first, because \<^verbatim>\<open>add_global\<close> inserts at the
  head of the chain.
\<close>

record object_info =
  o_filename :: string
  o_code_size :: uint24
  o_data_size :: uint24
  o_bss_size :: uint24
  o_num_symbols :: uint24
  o_num_relocs :: uint24
  o_num_externs :: uint24
  o_strtab_size :: uint24
  o_code_base :: uint24
  o_data_base :: uint24
  o_bss_base :: uint24
  o_file :: obj_file

record lib_object =
  lo_offset :: nat
  lo_loaded :: bool
  lo_file :: obj_file

record library_info =
  li_filename :: string
  li_objects :: "lib_object list"

record linker_state =
  ls_objects :: "object_info list"
  ls_symbols :: "global_symbol list"
  ls_libraries :: "library_info list"
  ls_base_addr :: uint24
  ls_total_code :: uint24
  ls_total_data :: uint24
  ls_total_bss :: uint24
  ls_errors :: int

subsection \<open>find_global, add_global\<close>

text \<open>Index of the newest entry of a table (kept in insertion order) that satisfies \<open>P\<close>.\<close>

primrec find_newest :: "('a \<Rightarrow> bool) \<Rightarrow> 'a list \<Rightarrow> nat option" where
  "find_newest P [] = None"
| "find_newest P (s # ss) =
     (case find_newest P ss of
        Some i \<Rightarrow> Some (Suc i)
      | None \<Rightarrow> if P s then Some 0 else None)"

definition find_global :: "linker_state \<Rightarrow> string \<Rightarrow> nat option" where
  "find_global ls name =
     find_newest (\<lambda>s. g_bucket s = sym_hash name \<and> ld_str_casecmp (g_name s) name = 0)
       (ls_symbols ls)"

definition add_global ::
  "linker_state \<Rightarrow> string \<Rightarrow> uint24 \<Rightarrow> uint8 \<Rightarrow> int \<Rightarrow> int \<times> linker_state" where
  "add_global ls name val sect obj_index =
     (case find_global ls name of
        Some _ \<Rightarrow> (-1, ls\<lparr>ls_errors := ls_errors ls + 1\<rparr>)
      | None \<Rightarrow>
          if length (ls_symbols ls) \<ge> LD_MAX_SYMBOLS
          then (-1, ls\<lparr>ls_errors := ls_errors ls + 1\<rparr>)
          else (0, ls\<lparr>ls_symbols := ls_symbols ls @
                 [\<lparr>g_name = str_copy name 64, g_value = val, g_section = sect,
                   g_obj_index = obj_index, g_bucket = sym_hash name\<rparr>]\<rparr>))"

subsection \<open>resolve_symbols\<close>

text \<open>The three layout loops: each object gets the running address, which then advances.\<close>

fun assign_code_bases :: "uint24 \<Rightarrow> object_info list \<Rightarrow> object_info list \<times> uint24" where
  "assign_code_bases addr [] = ([], addr)"
| "assign_code_bases addr (ob # obs) =
     (let (obs', addr') = assign_code_bases (addr + o_code_size ob) obs
      in (ob\<lparr>o_code_base := addr\<rparr> # obs', addr'))"

fun assign_data_bases :: "uint24 \<Rightarrow> object_info list \<Rightarrow> object_info list \<times> uint24" where
  "assign_data_bases addr [] = ([], addr)"
| "assign_data_bases addr (ob # obs) =
     (let (obs', addr') = assign_data_bases (addr + o_data_size ob) obs
      in (ob\<lparr>o_data_base := addr\<rparr> # obs', addr'))"

fun assign_bss_bases :: "uint24 \<Rightarrow> object_info list \<Rightarrow> object_info list \<times> uint24" where
  "assign_bss_bases addr [] = ([], addr)"
| "assign_bss_bases addr (ob # obs) =
     (let (obs', addr') = assign_bss_bases (addr + o_bss_size ob) obs
      in (ob\<lparr>o_bss_base := addr\<rparr> # obs', addr'))"

text \<open>
  \<^verbatim>\<open>ls->objects[sym->obj_index].code_base\<close>. The array has \<open>MAX_OBJECTS\<close> slots and
  \<^verbatim>\<open>main\<close> zero-fills the state, so a slot past \<open>num_objects\<close> reads base 0. An index
  outside the array is not given a meaning by the C code; the model reads 0 there too.
\<close>

definition obj_base_at :: "object_info list \<Rightarrow> int \<Rightarrow> (object_info \<Rightarrow> uint24) \<Rightarrow> uint24" where
  "obj_base_at objs i sel = (if 0 \<le> i \<and> nat i < length objs then sel (objs ! nat i) else 0)"

definition make_absolute :: "object_info list \<Rightarrow> global_symbol \<Rightarrow> global_symbol" where
  "make_absolute objs s =
     (if g_section s = SECT_CODE
        then s\<lparr>g_value := g_value s + obj_base_at objs (g_obj_index s) o_code_base\<rparr>
      else if g_section s = SECT_DATA
        then s\<lparr>g_value := g_value s + obj_base_at objs (g_obj_index s) o_data_base\<rparr>
      else if g_section s = SECT_BSS
        then s\<lparr>g_value := g_value s + obj_base_at objs (g_obj_index s) o_bss_base\<rparr>
      else s)"

definition layout_sections :: "linker_state \<Rightarrow> linker_state" where
  "layout_sections ls =
     (let (objs1, code_addr) = assign_code_bases (ls_base_addr ls) (ls_objects ls);
          (objs2, data_addr) = assign_data_bases code_addr objs1;
          (objs3, bss_addr) = assign_bss_bases data_addr objs2
      in ls\<lparr>ls_objects := objs3,
             ls_total_code := code_addr - ls_base_addr ls,
             ls_total_data := data_addr - code_addr,
             ls_total_bss := bss_addr - data_addr\<rparr>)"

definition absolute_symbols :: "linker_state \<Rightarrow> linker_state" where
  "absolute_symbols ls = ls\<lparr>ls_symbols := map (make_absolute (ls_objects ls)) (ls_symbols ls)\<rparr>"

definition inject_linker_symbols :: "linker_state \<Rightarrow> linker_state" where
  "inject_linker_symbols ls =
     (let ls1 = snd (add_global ls ''__low_code'' (ls_base_addr ls) 0 LINKER_DEFINED);
          ls2 = snd (add_global ls1 ''__len_code'' (ls_total_code ls1) 0 LINKER_DEFINED);
          ls3 = snd (add_global ls2 ''__low_data''
                       (ls_base_addr ls2 + ls_total_code ls2) 0 LINKER_DEFINED);
          ls4 = snd (add_global ls3 ''__len_data'' (ls_total_data ls3) 0 LINKER_DEFINED);
          ls5 = snd (add_global ls4 ''__low_bss''
                       (ls_base_addr ls4 + ls_total_code ls4 + ls_total_data ls4) 0
                       LINKER_DEFINED)
      in snd (add_global ls5 ''__len_bss'' (ls_total_bss ls5) 0 LINKER_DEFINED))"

text \<open>
  \<^verbatim>\<open>resolve_symbols\<close>: the section layout, then every global symbol made absolute,
  then the six linker-defined symbols.
\<close>

definition resolve_symbols :: "linker_state \<Rightarrow> linker_state" where
  "resolve_symbols ls = inject_linker_symbols (absolute_symbols (layout_sections ls))"


subsection \<open>Names and example states for the layout\<close>

text \<open>The six names \<^verbatim>\<open>resolve_symbols\<close> passes to \<^verbatim>\<open>add_global\<close>, in its order.\<close>

definition linker_defined_names :: "string list" where
  "linker_defined_names =
     [''__low_code'', ''__len_code'', ''__low_data'', ''__len_data'', ''__low_bss'', ''__len_bss'']"

definition linker_symbol :: "string \<Rightarrow> uint24 \<Rightarrow> global_symbol" where
  "linker_symbol n v =
     \<lparr>g_name = n, g_value = v, g_section = 0, g_obj_index = LINKER_DEFINED, g_bucket = sym_hash n\<rparr>"

text \<open>
  Scenario 5 of the specification (a.o with 0x10 bytes of code, b.o with 0x20, base
  0x40000), with data and BSS sizes and one exported code symbol of b.o added; and a
  state in which a loaded object already exports \<open>__low_code\<close>.
\<close>

definition empty_obj_file :: obj_file where
  "empty_obj_file = \<lparr>f_magic = ''EZ8O'', f_version = 3, f_code = [], f_data = [], f_bss_size = 0,
     f_symbols = [], f_relocs = [], f_externs = [], f_strtab = []\<rparr>"

definition plain_object :: "string \<Rightarrow> uint24 \<Rightarrow> uint24 \<Rightarrow> uint24 \<Rightarrow> object_info" where
  "plain_object fname c d b = \<lparr>o_filename = fname, o_code_size = c, o_data_size = d,
     o_bss_size = b, o_num_symbols = 0, o_num_relocs = 0, o_num_externs = 0, o_strtab_size = 0,
     o_code_base = 0, o_data_base = 0, o_bss_base = 0, o_file = empty_obj_file\<rparr>"

definition two_objects :: linker_state where
  "two_objects = \<lparr>ls_objects = [plain_object ''a.o'' 0x10 4 2, plain_object ''b.o'' 0x20 8 6],
     ls_symbols = [\<lparr>g_name = ''_main'', g_value = 4, g_section = SECT_CODE, g_obj_index = 1,
                    g_bucket = sym_hash ''_main''\<rparr>],
     ls_libraries = [], ls_base_addr = 0x40000, ls_total_code = 0, ls_total_data = 0,
     ls_total_bss = 0, ls_errors = 0\<rparr>"

definition low_code_taken :: linker_state where
  "low_code_taken = \<lparr>ls_objects = [plain_object ''a.o'' 0x10 0 0],
     ls_symbols = [\<lparr>g_name = ''__low_code'', g_value = 5, g_section = SECT_CODE, g_obj_index = 0,
                    g_bucket = sym_hash ''__low_code''\<rparr>],
     ls_libraries = [], ls_base_addr = 0x40000, ls_total_code = 0, ls_total_data = 0,
     ls_total_bss = 0, ls_errors = 0\<rparr>"

text \<open>The six names with the values \<^verbatim>\<open>resolve_symbols\<close> passes for them.\<close>

definition linker_values :: "linker_state \<Rightarrow> (string \<times> uint24) list" where
  "linker_values ls =
     [(''__low_code'', ls_base_addr ls),
      (''__len_code'', ls_total_code ls),
      (''__low_data'', ls_base_addr ls + ls_total_code ls),
      (''__len_data'', ls_total_data ls),
      (''__low_bss'', ls_base_addr ls + ls_total_code ls + ls_total_data ls),
      (''__len_bss'', ls_total_bss ls)]"

text \<open>Scenario 5 with an object that already exports \<open>__len_bss\<close>.\<close>

definition len_bss_taken :: linker_state where
  "len_bss_taken = two_objects\<lparr>ls_symbols := ls_symbols two_objects @
     [\<lparr>g_name = ''__len_bss'', g_value = 2, g_section = SECT_BSS, g_obj_index = 1,
       g_bucket = sym_hash ''__len_bss''\<rparr>]\<rparr>"


subsection \<open>load\_object\_at\<close>

text \<open>
  The object files are taken as they parse: every \<^verbatim>\<open>fopen\<close>, \<^verbatim>\<open>fread\<close> and
  \<^verbatim>\<open>malloc\<close> on them succeeds, and the header counts are the lengths of the tables.
  What is left of \<^verbatim>\<open>load_object_at\<close> is the object limit, the magic and version
  checks, and the registration of the exported symbols.
\<close>

definition obj_info_of :: "string \<Rightarrow> obj_file \<Rightarrow> object_info" where
  "obj_info_of fname f =
     \<lparr>o_filename = str_copy fname 256,
      o_code_size = of_nat (length (f_code f)), o_data_size = of_nat (length (f_data f)),
      o_bss_size = f_bss_size f, o_num_symbols = of_nat (length (f_symbols f)),
      o_num_relocs = of_nat (length (f_relocs f)),
      o_num_externs = of_nat (length (f_externs f)),
      o_strtab_size = of_nat (length (f_strtab f)),
      o_code_base = 0, o_data_base = 0, o_bss_base = 0, o_file = f\<rparr>"

text \<open>
  One turn of the symbol loop: \<^verbatim>\<open>if (strtab && name_off < obj->strtab_size)
  add_global(ls, &strtab[name_off], value, sym.section, ls->num_objects);\<close> &mdash; the
  result of \<^verbatim>\<open>add_global\<close> is not looked at.
\<close>

definition register_symbol :: "object_info \<Rightarrow> nat \<Rightarrow> linker_state \<Rightarrow> obj_symbol \<Rightarrow> linker_state" where
  "register_symbol obj idx ls sm =
     (if o_strtab_size obj > 0 \<and> sy_name_offset sm < o_strtab_size obj
      then snd (add_global ls (cstr_at (f_strtab (o_file obj)) (unat (sy_name_offset sm)))
                  (sy_value sm) (sy_section sm) (int idx))
      else ls)"

definition load_object_at :: "linker_state \<Rightarrow> string \<Rightarrow> obj_file \<Rightarrow> int \<times> linker_state" where
  "load_object_at ls fname f =
     (if length (ls_objects ls) \<ge> LD_MAX_OBJECTS then (-1, ls)
      else if f_magic f \<noteq> ''EZ8O'' then (-1, ls)
      else if f_version f \<noteq> 3 then (-1, ls)
      else
        (let obj = obj_info_of fname f;
             ls1 = foldl (register_symbol obj (length (ls_objects ls))) ls (f_symbols f)
         in (0, ls1\<lparr>ls_objects := ls_objects ls1 @ [obj]\<rparr>)))"

subsection \<open>process\_libraries\<close>

text \<open>\<^verbatim>\<open>get_object_externals_fp\<close> with \<open>max_ext\<close> slots of 64 characters.\<close>

definition get_object_externals :: "object_info \<Rightarrow> nat \<Rightarrow> string list" where
  "get_object_externals obj maxext =
     (if o_strtab_size obj = 0 \<or> o_num_externs obj = 0 then []
      else take maxext
             (map (\<lambda>e. str_copy (cstr_at (f_strtab (o_file obj)) (unat (ex_name_offset e))) 64)
                (filter (\<lambda>e. ex_name_offset e < o_strtab_size obj)
                   (take (unat (o_num_externs obj)) (f_externs (o_file obj))))))"

text \<open>
  The body of the inner collection loop, with its guard \<^verbatim>\<open>num_undefined < MAX_EXTERNS\<close>:
  once the list is full no later turn of either loop adds to it.
\<close>

definition add_undefined :: "linker_state \<Rightarrow> string list \<Rightarrow> string \<Rightarrow> string list" where
  "add_undefined ls undef ext =
     (if length undef \<ge> LD_MAX_EXTERNS then undef
      else if find_global ls ext \<noteq> None then undef
      else if list_ex (\<lambda>u. ld_str_casecmp u ext = 0) undef then undef
      else undef @ [str_copy ext 64])"

definition collect_undefined :: "linker_state \<Rightarrow> string list" where
  "collect_undefined ls =
     foldl (\<lambda>undef obj. foldl (add_undefined ls) undef (get_object_externals obj 256))
       [] (ls_objects ls)"

text \<open>
  \<open>found_match\<close>: some exported symbol of the library object, with its name inside the
  string table, equals some undefined name without regard to case. An object without
  symbols or without a string table is passed over.
\<close>

definition lib_object_matches :: "string list \<Rightarrow> obj_file \<Rightarrow> bool" where
  "lib_object_matches undef f =
     (if f_symbols f = [] \<or> f_strtab f = [] then False
      else list_ex (\<lambda>s. unat (sy_name_offset s) < length (f_strtab f) \<and>
                list_ex (\<lambda>u. ld_str_casecmp (cstr_at (f_strtab f) (unat (sy_name_offset s))) u = 0)
                  undef)
             (f_symbols f))"

text \<open>
  The loop over the objects of one library, from index \<open>j\<close> on. It returns the linker
  state, the catalogue entries with their \<open>loaded\<close> flags, and the indices of the entries
  it loaded (in C: the turns that set \<open>loaded_any\<close> and count in \<open>total_loaded\<close>).
\<close>

fun scan_lib_objects ::
  "string list \<Rightarrow> string \<Rightarrow> nat \<Rightarrow> linker_state \<Rightarrow> lib_object list
     \<Rightarrow> linker_state \<times> lib_object list \<times> nat list" where
  "scan_lib_objects undef fname j ls [] = (ls, [], [])"
| "scan_lib_objects undef fname j ls (lo # los) =
     (if lo_loaded lo \<or> \<not> lib_object_matches undef (lo_file lo)
      then (let (ls', los', tr) = scan_lib_objects undef fname (Suc j) ls los
            in (ls', lo # los', tr))
      else (case load_object_at ls fname (lo_file lo) of (rc, ls1) \<Rightarrow>
              if rc = 0
              then (let (ls', los', tr) = scan_lib_objects undef fname (Suc j) ls1 los
                    in (ls', lo\<lparr>lo_loaded := True\<rparr> # los', j # tr))
              else (let (ls', los', tr) = scan_lib_objects undef fname (Suc j) ls1 los
                    in (ls', lo # los', tr))))"

text \<open>The loop over the libraries, from library index \<open>k\<close> on.\<close>

fun scan_libraries ::
  "string list \<Rightarrow> nat \<Rightarrow> linker_state \<Rightarrow> library_info list
     \<Rightarrow> linker_state \<times> library_info list \<times> (nat \<times> nat) list" where
  "scan_libraries undef k ls [] = (ls, [], [])"
| "scan_libraries undef k ls (lib # libs) =
     (let (ls1, los', tr1) = scan_lib_objects undef (li_filename lib) 0 ls (li_objects lib);
          (ls2, libs', tr2) = scan_libraries undef (Suc k) ls1 libs
      in (ls2, lib\<lparr>li_objects := los'\<rparr> # libs', map (Pair k) tr1 @ tr2))"

text \<open>One turn of the \<^verbatim>\<open>do ... while (loaded_any)\<close> loop after the undefined names are known.\<close>

definition library_pass :: "string list \<Rightarrow> linker_state \<Rightarrow> linker_state \<times> (nat \<times> nat) list" where
  "library_pass undef ls =
     (let (ls1, libs', tr) = scan_libraries undef 0 ls (ls_libraries ls)
      in (ls1\<lparr>ls_libraries := libs'\<rparr>, tr))"

definition unloaded_count :: "library_info list \<Rightarrow> nat" where
  "unloaded_count libs =
     sum_list (map (\<lambda>lib. length (filter (\<lambda>lo. \<not> lo_loaded lo) (li_objects lib))) libs)"


subsection \<open>The loading loop\<close>

text \<open>
  A pass that loads something lowers the number of catalogue entries not yet loaded; this
  is what makes the \<^verbatim>\<open>do ... while (loaded_any)\<close> loop a total function.
\<close>

lemma scan_lib_objects_count:
  "scan_lib_objects undef fname j ls los = (ls', los', tr) \<Longrightarrow>
   length (filter (\<lambda>lo. \<not> lo_loaded lo) los') + length tr
     = length (filter (\<lambda>lo. \<not> lo_loaded lo) los)"
proof (induction los arbitrary: j ls ls' los' tr)
  case Nil
  then show ?case by simp
next
  case (Cons lo los)
  then show ?case
    by (auto split: if_splits prod.splits)
qed

lemma scan_libraries_count:
  "scan_libraries undef k ls libs = (ls', libs', tr) \<Longrightarrow>
   unloaded_count libs' + length tr = unloaded_count libs"
proof (induction libs arbitrary: k ls ls' libs' tr)
  case Nil
  then show ?case by (simp add: unloaded_count_def)
next
  case (Cons lib libs)
  obtain ls1 los1 tr1 where s1:
    "scan_lib_objects undef (li_filename lib) 0 ls (li_objects lib) = (ls1, los1, tr1)"
    by (cases "scan_lib_objects undef (li_filename lib) 0 ls (li_objects lib)") auto
  obtain ls2 libs2 tr2 where s2: "scan_libraries undef (Suc k) ls1 libs = (ls2, libs2, tr2)"
    by (cases "scan_libraries undef (Suc k) ls1 libs") auto
  from Cons.prems s1 s2 have r: "libs' = lib\<lparr>li_objects := los1\<rparr> # libs2"
    "tr = map (Pair k) tr1 @ tr2" by auto
  from Cons.IH[OF s2] scan_lib_objects_count[OF s1] r
  show ?case by (simp add: unloaded_count_def)
qed

lemma library_pass_count:
  "library_pass undef ls = (ls', tr) \<Longrightarrow>
   unloaded_count (ls_libraries ls') + length tr = unloaded_count (ls_libraries ls)"
  by (auto simp: library_pass_def split: prod.splits dest: scan_libraries_count)

text \<open>
  The loop of \<^verbatim>\<open>process_libraries\<close>. It stops when no name is undefined
  (\<^verbatim>\<open>break\<close>) or when a pass has loaded nothing. The result carries, besides the state,
  one list for every pass made: the catalogue entries (library index, object index) the
  pass loaded, in loading order. A pass that ends at the \<^verbatim>\<open>break\<close> has loaded nothing.
\<close>

function process_loop :: "linker_state \<Rightarrow> linker_state \<times> (nat \<times> nat) list list" where
  "process_loop ls =
     (let undef = collect_undefined ls in
      if undef = [] then (ls, [[]])
      else (case library_pass undef ls of (ls1, tr) \<Rightarrow>
              if tr \<noteq> []
              then (case process_loop ls1 of (ls2, trs) \<Rightarrow> (ls2, tr # trs))
              else (ls1, [[]])))"
  by pat_completeness auto
termination
  apply (relation "measure (\<lambda>ls. unloaded_count (ls_libraries ls))")
   apply simp
  apply simp
  subgoal for ls x xa y
    using library_pass_count[of "collect_undefined ls" ls xa y] by (cases y) auto
  done

declare process_loop.simps [simp del]

text \<open>\<^verbatim>\<open>process_libraries\<close>: nothing to do, and no pass, without libraries.\<close>

definition process_libraries :: "linker_state \<Rightarrow> linker_state \<times> (nat \<times> nat) list list" where
  "process_libraries ls = (if ls_libraries ls = [] then (ls, []) else process_loop ls)"

definition entry_unloaded :: "library_info list \<Rightarrow> nat \<times> nat \<Rightarrow> bool" where
  "entry_unloaded libs e = (case e of (k, j) \<Rightarrow>
     k < length libs \<and> j < length (li_objects (libs ! k)) \<and>
     \<not> lo_loaded (li_objects (libs ! k) ! j))"


text \<open>
  A chain of needs: main.o calls \<open>_printf\<close>; the library holds an object exporting
  \<open>_printf\<close> that needs \<open>_putc\<close>, an object exporting \<open>_unused\<close>, and an object
  exporting \<open>_putc\<close>. \<open>chain_link1\<close> and \<open>chain_link2\<close> are the states after the first
  and the second pass.
\<close>

definition main_obj :: obj_file where
  "main_obj = \<lparr>f_magic = ''EZ8O'', f_version = 3, f_code = [0xCD, 0, 0, 0], f_data = [],
     f_bss_size = 0, f_symbols = [], f_relocs = [],
     f_externs = [\<lparr>ex_name_offset = 0, ex_symbol_index = 0\<rparr>],
     f_strtab = ''_printf'' @ [CHR 0x00]\<rparr>"

definition printf_obj :: obj_file where
  "printf_obj = \<lparr>f_magic = ''EZ8O'', f_version = 3, f_code = [0xCD, 0, 0, 0, 0xC9], f_data = [],
     f_bss_size = 0,
     f_symbols = [\<lparr>sy_name_offset = 0, sy_section = SECT_CODE, sy_flags = SYM_EXPORT, sy_value = 0\<rparr>],
     f_relocs = [],
     f_externs = [\<lparr>ex_name_offset = 8, ex_symbol_index = 0\<rparr>],
     f_strtab = ''_printf'' @ [CHR 0x00] @ ''_putc'' @ [CHR 0x00]\<rparr>"

definition unused_obj :: obj_file where
  "unused_obj = \<lparr>f_magic = ''EZ8O'', f_version = 3, f_code = [0xC9], f_data = [],
     f_bss_size = 0,
     f_symbols = [\<lparr>sy_name_offset = 0, sy_section = SECT_CODE, sy_flags = SYM_EXPORT, sy_value = 0\<rparr>],
     f_relocs = [], f_externs = [],
     f_strtab = ''_unused'' @ [CHR 0x00]\<rparr>"

definition putc_obj :: obj_file where
  "putc_obj = \<lparr>f_magic = ''EZ8O'', f_version = 3, f_code = [0xC9], f_data = [],
     f_bss_size = 0,
     f_symbols = [\<lparr>sy_name_offset = 0, sy_section = SECT_CODE, sy_flags = SYM_EXPORT, sy_value = 0\<rparr>],
     f_relocs = [], f_externs = [],
     f_strtab = ''_putc'' @ [CHR 0x00]\<rparr>"

definition chain_link :: linker_state where
  "chain_link = \<lparr>ls_objects = [obj_info_of ''main.o'' main_obj], ls_symbols = [],
     ls_libraries = [\<lparr>li_filename = ''libc.a'', li_objects =
        [\<lparr>lo_offset = 0, lo_loaded = False, lo_file = printf_obj\<rparr>,
         \<lparr>lo_offset = 76, lo_loaded = False, lo_file = unused_obj\<rparr>,
         \<lparr>lo_offset = 122, lo_loaded = False, lo_file = putc_obj\<rparr>]\<rparr>],
     ls_base_addr = 0x40000, ls_total_code = 0, ls_total_data = 0, ls_total_bss = 0,
     ls_errors = 0\<rparr>"


definition chain_link1 :: linker_state where
  "chain_link1 = chain_link\<lparr>
     ls_objects := [obj_info_of ''main.o'' main_obj, obj_info_of ''libc.a'' printf_obj],
     ls_symbols := [\<lparr>g_name = ''_printf'', g_value = 0, g_section = SECT_CODE, g_obj_index = 1,
                     g_bucket = 77\<rparr>],
     ls_libraries := [\<lparr>li_filename = ''libc.a'', li_objects =
        [\<lparr>lo_offset = 0, lo_loaded = True, lo_file = printf_obj\<rparr>,
         \<lparr>lo_offset = 76, lo_loaded = False, lo_file = unused_obj\<rparr>,
         \<lparr>lo_offset = 122, lo_loaded = False, lo_file = putc_obj\<rparr>]\<rparr>]\<rparr>"

definition chain_link2 :: linker_state where
  "chain_link2 = chain_link\<lparr>
     ls_objects := [obj_info_of ''main.o'' main_obj, obj_info_of ''libc.a'' printf_obj,
                    obj_info_of ''libc.a'' putc_obj],
     ls_symbols := [\<lparr>g_name = ''_printf'', g_value = 0, g_section = SECT_CODE, g_obj_index = 1,
                     g_bucket = 77\<rparr>,
                    \<lparr>g_name = ''_putc'', g_value = 0, g_section = SECT_CODE, g_obj_index = 2,
                     g_bucket = 104\<rparr>],
     ls_libraries := [\<lparr>li_filename = ''libc.a'', li_objects =
        [\<lparr>lo_offset = 0, lo_loaded = True, lo_file = printf_obj\<rparr>,
         \<lparr>lo_offset = 76, lo_loaded = False, lo_file = unused_obj\<rparr>,
         \<lparr>lo_offset = 122, lo_loaded = True, lo_file = putc_obj\<rparr>]\<rparr>]\<rparr>"

text \<open>
  The same library with a main.o that needs \<open>_printf\<close>, \<open>_putc\<close> and a name that no
  library object exports; \<open>needy_link1\<close> is the state after the first pass.
\<close>

definition needy_obj :: obj_file where
  "needy_obj = \<lparr>f_magic = ''EZ8O'', f_version = 3, f_code = [0xCD, 0, 0, 0], f_data = [],
     f_bss_size = 0, f_symbols = [], f_relocs = [],
     f_externs = [\<lparr>ex_name_offset = 0, ex_symbol_index = 0\<rparr>,
                  \<lparr>ex_name_offset = 8, ex_symbol_index = 1\<rparr>,
                  \<lparr>ex_name_offset = 14, ex_symbol_index = 2\<rparr>],
     f_strtab = ''_printf'' @ [CHR 0x00] @ ''_putc'' @ [CHR 0x00] @ ''_nowhere'' @ [CHR 0x00]\<rparr>"

definition needy_link :: linker_state where
  "needy_link = chain_link\<lparr>ls_objects := [obj_info_of ''main.o'' needy_obj]\<rparr>"

definition needy_link1 :: linker_state where
  "needy_link1 = chain_link2\<lparr>
     ls_objects := [obj_info_of ''main.o'' needy_obj, obj_info_of ''libc.a'' printf_obj,
                    obj_info_of ''libc.a'' putc_obj]\<rparr>"

subsection \<open>link\_output: applying relocations\<close>






























section \<open>Assembler (ez80asm.c, ez80instr.c, ez80dir.c)\<close>

subsection \<open>Limits, characters\<close>

definition MAX_LINE_LEN :: nat where "MAX_LINE_LEN = 512"
definition MAX_LABEL_LEN :: nat where "MAX_LABEL_LEN = 64"
definition MAX_STRING_LEN :: nat where "MAX_STRING_LEN = 256"
definition MAX_SYMBOLS :: nat where "MAX_SYMBOLS = 4096"
definition MAX_EXTERNS :: nat where "MAX_EXTERNS = 128"

text \<open>The \<^verbatim>\<open><ctype.h>\<close> tests and \<^verbatim>\<open>tolower\<close> in the C locale, on character codes.\<close>

definition c_isdigit :: "char \<Rightarrow> bool" where
  "c_isdigit c = (let n = (of_char c :: nat) in 48 \<le> n \<and> n \<le> 57)"

definition c_isxdigit :: "char \<Rightarrow> bool" where
  "c_isxdigit c = (let n = (of_char c :: nat) in
     (48 \<le> n \<and> n \<le> 57) \<or> (65 \<le> n \<and> n \<le> 70) \<or> (97 \<le> n \<and> n \<le> 102))"

definition c_isalpha :: "char \<Rightarrow> bool" where
  "c_isalpha c = (let n = (of_char c :: nat) in (65 \<le> n \<and> n \<le> 90) \<or> (97 \<le> n \<and> n \<le> 122))"

definition c_isalnum :: "char \<Rightarrow> bool" where
  "c_isalnum c = (c_isalpha c \<or> c_isdigit c)"

definition c_tolower :: "char \<Rightarrow> char" where
  "c_tolower c = (let n = (of_char c :: nat) in
     if 65 \<le> n \<and> n \<le> 90 then char_of (n + 32) else c)"

definition is_ident_start :: "char \<Rightarrow> bool" where
  "is_ident_start c = (c_isalpha c \<or> c = CHR ''_'' \<or> c = CHR ''.'' \<or> c = CHR ''@'')"

definition is_ident_char :: "char \<Rightarrow> bool" where
  "is_ident_char c = (c_isalnum c \<or> c = CHR ''_'' \<or> c = CHR ''.'' \<or> c = CHR ''@'')"

text \<open>
  \<^verbatim>\<open>str_casecmp\<close> of ez80asm.c, used only as a test for equality: both strings agree
  after \<^verbatim>\<open>tolower\<close>.
\<close>

definition str_casecmp_eq :: "string \<Rightarrow> string \<Rightarrow> bool" where
  "str_casecmp_eq s1 s2 = (map c_tolower s1 = map c_tolower s2)"

text \<open>\<^verbatim>\<open>str_tolower(dest, src, maxlen)\<close>\<close>

definition str_tolower :: "string \<Rightarrow> nat \<Rightarrow> string" where
  "str_tolower src maxlen = map c_tolower (take (maxlen - 1) src)"

subsection \<open>Tokens\<close>

datatype tok_type =
    TOK_EOF | TOK_EOL | TOK_LABEL | TOK_IDENT | TOK_NUMBER | TOK_STRING | TOK_CHAR
  | TOK_COMMA | TOK_COLON | TOK_LPAREN | TOK_RPAREN | TOK_PLUS | TOK_MINUS | TOK_STAR
  | TOK_SLASH | TOK_DOLLAR | TOK_HASH | TOK_DOT | TOK_EQUALS | TOK_ERROR

text \<open>
  \<open>tk_text\<close> holds the characters the lexer stored in \<^verbatim>\<open>tok->text\<close> before the
  terminating NUL it writes at the end; after a \<^verbatim>\<open>\0\<close> escape a stored character can
  itself be NUL. C code that reads \<^verbatim>\<open>tok->text\<close> as a string sees \<open>c_string\<close> of it.
\<close>

record token =
  tk_type :: tok_type
  tk_text :: string
  tk_value :: int24

definition c_string :: "string \<Rightarrow> string" where
  "c_string buf = takeWhile (\<lambda>c. c \<noteq> CHR 0x00) buf"

definition mk_token :: "tok_type \<Rightarrow> string \<Rightarrow> int24 \<Rightarrow> token" where
  "mk_token ty txt v = \<lparr>tk_type = ty, tk_text = txt, tk_value = v\<rparr>"

subsection \<open>Lexer\<close>

text \<open>
  A source line is a C string: the characters before its NUL. \<^verbatim>\<open>strtoul\<close> reads the
  digits the lexer has collected; it saturates at \<^verbatim>\<open>ULONG_MAX\<close>, and a long has 24 bits
  here (objformat.h).
\<close>

definition ULONG_MAX :: nat where "ULONG_MAX = 2 ^ 24 - 1"

definition digit_value :: "char \<Rightarrow> nat" where
  "digit_value c = (let n = (of_char c :: nat) in
     if 48 \<le> n \<and> n \<le> 57 then n - 48
     else if 65 \<le> n \<and> n \<le> 70 then n - 55
     else n - 87)"

definition strtoul :: "string \<Rightarrow> nat \<Rightarrow> nat" where
  "strtoul txt base = min ULONG_MAX (foldl (\<lambda>v c. v * base + digit_value c) 0 txt)"

text \<open>
  The digit loop of a number: at most \<open>room\<close> characters are stored; an \<open>h\<close> or \<open>H\<close>
  that stops the loop is consumed.
\<close>

fun lex_digits :: "nat \<Rightarrow> nat \<Rightarrow> string \<Rightarrow> string \<times> string" where
  "lex_digits base 0 l = ([], l)"
| "lex_digits base (Suc k) [] = ([], [])"
| "lex_digits base (Suc k) (c # cs) =
     (if (base = 16 \<and> c_isxdigit c) \<or> (base = 10 \<and> c_isdigit c)
      then (let (t, r) = lex_digits base k cs in (c # t, r))
      else if c = CHR ''h'' \<or> c = CHR ''H'' then ([], cs)
      else ([], c # cs))"

text \<open>\<^verbatim>\<open>while (i < max && pred(*p)) text[i++] = *p++;\<close>\<close>

fun lex_while :: "(char \<Rightarrow> bool) \<Rightarrow> nat \<Rightarrow> string \<Rightarrow> string \<times> string" where
  "lex_while P 0 l = ([], l)"
| "lex_while P (Suc k) [] = ([], [])"
| "lex_while P (Suc k) (c # cs) =
     (if P c then (let (t, r) = lex_while P k cs in (c # t, r)) else ([], c # cs))"

text \<open>The body loop of a string literal, with its escapes; \<open>room\<close> is \<open>MAX_STRING_LEN - 1 - i\<close>.\<close>

definition string_escape :: "char \<Rightarrow> char" where
  "string_escape c =
     (if c = CHR ''n'' then CHR 0x0A
      else if c = CHR ''r'' then CHR 0x0D
      else if c = CHR ''t'' then CHR 0x09
      else if c = CHR ''0'' then CHR 0x00
      else c)"

fun lex_string :: "nat \<Rightarrow> string \<Rightarrow> string \<times> string" where
  "lex_string 0 l = ([], l)"
| "lex_string (Suc k) [] = ([], [])"
| "lex_string (Suc k) (c # cs) =
     (if c = CHR 0x22 then ([], c # cs)
      else if c = CHR 0x5C \<and> cs \<noteq> []
        then (let (t, r) = lex_string k (tl cs) in (string_escape (hd cs) # t, r))
      else (let (t, r) = lex_string k cs in (c # t, r)))"

text \<open>The escapes of a character literal (no \<^verbatim>\<open>\\\<close> or \<^verbatim>\<open>\"\<close> case: they fall to the default).\<close>

definition char_escape :: "char \<Rightarrow> char" where
  "char_escape c =
     (if c = CHR ''n'' then CHR 0x0A
      else if c = CHR ''r'' then CHR 0x0D
      else if c = CHR ''t'' then CHR 0x09
      else if c = CHR ''0'' then CHR 0x00
      else c)"

definition skip_whitespace :: "string \<Rightarrow> string" where
  "skip_whitespace l = dropWhile (\<lambda>c. c = CHR '' '' \<or> c = CHR 0x09) l"

definition single_char_token :: "char \<Rightarrow> tok_type option" where
  "single_char_token c =
     (if c = CHR '','' then Some TOK_COMMA
      else if c = CHR '':'' then Some TOK_COLON
      else if c = CHR ''('' then Some TOK_LPAREN
      else if c = CHR '')'' then Some TOK_RPAREN
      else if c = CHR ''+'' then Some TOK_PLUS
      else if c = CHR ''-'' then Some TOK_MINUS
      else if c = CHR ''*'' then Some TOK_STAR
      else if c = CHR ''/'' then Some TOK_SLASH
      else if c = CHR ''='' then Some TOK_EQUALS
      else None)"

text \<open>The number branch of \<^verbatim>\<open>lexer_next\<close>; \<open>l\<close> starts with a digit.\<close>

definition lex_number :: "string \<Rightarrow> token \<times> string" where
  "lex_number l =
     (let prefixed = (case l of c0 # c1 # _ \<Rightarrow> c0 = CHR ''0'' \<and> (c1 = CHR ''x'' \<or> c1 = CHR ''X'')
                      | _ \<Rightarrow> False);
          p = dropWhile c_isxdigit l;
          suffixed = (case p of [] \<Rightarrow> False
                      | h # q \<Rightarrow> (h = CHR ''h'' \<or> h = CHR ''H'') \<and>
                                 \<not> (case q of [] \<Rightarrow> False | d # _ \<Rightarrow> is_ident_char d));
          base = (if prefixed \<or> suffixed then 16 else 10);
          (txt, rest) = lex_digits base (MAX_LABEL_LEN - 1) (if prefixed then drop 2 l else l)
      in (mk_token TOK_NUMBER txt (of_nat (strtoul txt base)), rest))"

text \<open>
  The identifier branch; \<open>l\<close> starts with an identifier character. After the name and
  the blanks behind it, a colon makes the token a label and is consumed.
\<close>

definition label_or_ident :: "string \<Rightarrow> string \<Rightarrow> token \<times> string" where
  "label_or_ident txt rest =
     (case rest of
        c # rest' \<Rightarrow> if c = CHR '':'' then (mk_token TOK_LABEL txt 0, rest')
                      else (mk_token TOK_IDENT txt 0, rest)
      | [] \<Rightarrow> (mk_token TOK_IDENT txt 0, rest))"

definition lex_ident :: "string \<Rightarrow> token \<times> string" where
  "lex_ident l =
     (let (txt0, rest0) = lex_while is_ident_char (MAX_LABEL_LEN - 1) l;
          alt = (length txt0 = 2 \<and> rest0 \<noteq> [] \<and> hd rest0 = CHR 0x27 \<and>
                 (txt0 ! 0 = CHR ''a'' \<or> txt0 ! 0 = CHR ''A'') \<and>
                 (txt0 ! 1 = CHR ''f'' \<or> txt0 ! 1 = CHR ''F''))
      in label_or_ident (if alt then txt0 @ [CHR 0x27] else txt0)
           (skip_whitespace (if alt then tl rest0 else rest0)))"

text \<open>
  The string branch; \<open>l\<close> is what follows the opening quote. The third component is 1 when
  "string too long" is reported. \<open>skip_char\<close> is \<^verbatim>\<open>if (*p == x) p++;\<close>
\<close>

definition skip_char :: "char \<Rightarrow> string \<Rightarrow> string" where
  "skip_char x l = (case l of c # r \<Rightarrow> if c = x then r else l | [] \<Rightarrow> [])"

definition lex_string_literal :: "string \<Rightarrow> token \<times> string \<times> nat" where
  "lex_string_literal l =
     (let (txt, rest0) = lex_string (MAX_STRING_LEN - 1) l;
          too_long = (rest0 \<noteq> [] \<and> hd rest0 \<noteq> CHR 0x22);
          rest1 = (if too_long then dropWhile (\<lambda>c. c \<noteq> CHR 0x22) rest0 else rest0)
      in (mk_token TOK_STRING txt 0, skip_char (CHR 0x22) rest1, if too_long then 1 else 0))"

text \<open>
  The character branch; \<open>l\<close> is what follows the opening quote. At the end of the line the
  C code reads the NUL as the character; the model stays at the end of the line there.
\<close>

definition lex_char_literal :: "string \<Rightarrow> token \<times> string" where
  "lex_char_literal l =
     (let (ch, rest0) =
            (case l of
               c # d # r \<Rightarrow> if c = CHR 0x5C then (char_escape d, r) else (c, d # r)
             | [c] \<Rightarrow> (c, [])
             | [] \<Rightarrow> (CHR 0x00, []))
      in (mk_token TOK_CHAR [ch] (of_nat (of_char ch)), skip_char (CHR 0x27) rest0))"

text \<open>
  \<^verbatim>\<open>lexer_next\<close> on the rest of the line: the token, the new rest of the line and the
  number of errors reported.
\<close>

definition lex :: "string \<Rightarrow> token \<times> string \<times> nat" where
  "lex line =
     (let l = skip_whitespace line in
      case l of
        [] \<Rightarrow> (mk_token TOK_EOL [] 0, l, 0)
      | c # cs \<Rightarrow>
          if c = CHR 0x0A \<or> c = CHR '';'' \<or> c = CHR ''#'' then (mk_token TOK_EOL [] 0, l, 0)
          else (case single_char_token c of
                  Some ty \<Rightarrow> (mk_token ty [c] 0, cs, 0)
                | None \<Rightarrow>
                    if c_isdigit c then (let (t, r) = lex_number l in (t, r, 0))
                    else if c = CHR ''$'' \<and> cs \<noteq> [] \<and> c_isxdigit (hd cs)
                      then (let (txt, r) = lex_while c_isxdigit (MAX_LABEL_LEN - 1) cs
                            in (mk_token TOK_NUMBER txt (of_nat (strtoul txt 16)), r, 0))
                    else if c = CHR ''%'' \<and> cs \<noteq> [] \<and> (hd cs = CHR ''0'' \<or> hd cs = CHR ''1'')
                      then (let (txt, r) = lex_while (\<lambda>d. d = CHR ''0'' \<or> d = CHR ''1'')
                                             (MAX_LABEL_LEN - 1) cs
                            in (mk_token TOK_NUMBER txt (of_nat (strtoul txt 2)), r, 0))
                    else if c = CHR ''$'' then (mk_token TOK_DOLLAR [c] 0, cs, 0)
                    else if is_ident_start c then (let (t, r) = lex_ident l in (t, r, 0))
                    else if c = CHR 0x22 then lex_string_literal cs
                    else if c = CHR 0x27 then (let (t, r) = lex_char_literal cs in (t, r, 0))
                    else (mk_token TOK_ERROR [c] 0, cs, 0)))"


subsection \<open>Assembler state\<close>

record symbol =
  s_name :: string
  s_value :: uint24
  s_section :: uint8
  s_flags :: uint8
  s_defined :: bool
  s_pass1_value :: uint24

record relocation =
  r_offset :: uint24
  r_section :: uint8
  r_type :: uint8
  r_target_sect :: uint8
  r_ext_index :: uint24

text \<open>
  \<^verbatim>\<open>AsmState\<close>. The three scratch files are lists of what was written to them, \<open>None\<close>
  while the file pointer is NULL. The symbol array is a list in insertion order; the hash
  index is left out, since it finds the newest symbol with the name asked for (every
  name that reaches the table has fewer than \<open>MAX_LABEL_LEN\<close> characters, so it is stored
  whole).
\<close>

record asm_state =
  pass :: nat
  errors :: nat
  warnings :: nat
  line_ptr :: string
  current_token :: token
  code_tmp :: "uint8 list option"
  data_tmp :: "uint8 list option"
  reloc_tmp :: "relocation list option"
  code_size :: uint24
  data_size :: uint24
  bss_size :: uint24
  num_relocs :: uint24
  current_section :: uint8
  pc :: uint24
  code_pc :: uint24
  data_pc :: uint24
  bss_pc :: uint24
  symbols :: "symbol list"
  externs :: "string list"
  local_scope :: nat

definition asm_error :: "asm_state \<Rightarrow> asm_state" where
  "asm_error as = as\<lparr>errors := errors as + 1\<rparr>"

definition asm_warning :: "asm_state \<Rightarrow> asm_state" where
  "asm_warning as = as\<lparr>warnings := warnings as + 1\<rparr>"

definition lexer_init :: "asm_state \<Rightarrow> string \<Rightarrow> asm_state" where
  "lexer_init as line = as\<lparr>line_ptr := line, current_token := mk_token TOK_ERROR [] 0\<rparr>"

definition lexer_next :: "asm_state \<Rightarrow> asm_state" where
  "lexer_next as =
     (case lex (line_ptr as) of (t, r, e) \<Rightarrow>
        as\<lparr>current_token := t, line_ptr := r, errors := errors as + e\<rparr>)"

text \<open>
  \<^verbatim>\<open>lexer_peek\<close> restores the token and the line pointer; an error counted while
  peeking stays counted.
\<close>

definition lexer_peek :: "asm_state \<Rightarrow> token \<times> asm_state" where
  "lexer_peek as =
     (let as1 = lexer_next as
      in (current_token as1, as1\<lparr>current_token := current_token as, line_ptr := line_ptr as\<rparr>))"

abbreviation cur_type :: "asm_state \<Rightarrow> tok_type" where
  "cur_type as \<equiv> tk_type (current_token as)"

abbreviation cur_text :: "asm_state \<Rightarrow> string" where
  "cur_text as \<equiv> c_string (tk_text (current_token as))"

subsection \<open>Symbol table\<close>

definition symbol_find :: "asm_state \<Rightarrow> string \<Rightarrow> nat option" where
  "symbol_find as name = find_newest (\<lambda>s. s_name s = name) (symbols as)"

definition symbol_add :: "asm_state \<Rightarrow> string \<Rightarrow> nat option \<times> asm_state" where
  "symbol_add as name =
     (if length (symbols as) \<ge> MAX_SYMBOLS then (None, asm_error as)
      else (Some (length (symbols as)),
            as\<lparr>symbols := symbols as @
               [\<lparr>s_name = str_copy name MAX_LABEL_LEN, s_value = 0,
                 s_section = current_section as, s_flags = SYM_LOCAL, s_defined = False,
                 s_pass1_value = 0\<rparr>]\<rparr>))"

text \<open>The assignments at the end of \<^verbatim>\<open>symbol_define\<close>, on the symbol at index \<open>i\<close>.\<close>

definition set_definition :: "asm_state \<Rightarrow> nat \<Rightarrow> uint24 \<Rightarrow> asm_state" where
  "set_definition as i v =
     as\<lparr>symbols := (symbols as)[i := (symbols as ! i)
          \<lparr>s_value := v, s_section := current_section as, s_defined := True,
           s_pass1_value := (if pass as = 1 then v else s_pass1_value (symbols as ! i))\<rparr>]\<rparr>"

definition symbol_define :: "asm_state \<Rightarrow> string \<Rightarrow> uint24 \<Rightarrow> int \<times> asm_state" where
  "symbol_define as name v =
     (case symbol_find as name of
        Some i \<Rightarrow>
          if s_defined (symbols as ! i) \<and> pass as = 1 then (-1, asm_error as)
          else if s_flags (symbols as ! i) = SYM_EXTERN then (-1, asm_error as)
          else (0, set_definition as i v)
      | None \<Rightarrow>
          (case symbol_add as name of
             (None, as1) \<Rightarrow> (-1, as1)
           | (Some i, as1) \<Rightarrow> (0, set_definition as1 i v)))"

definition set_flags :: "asm_state \<Rightarrow> nat \<Rightarrow> uint8 \<Rightarrow> asm_state" where
  "set_flags as i fl = as\<lparr>symbols := (symbols as)[i := (symbols as ! i)\<lparr>s_flags := fl\<rparr>]\<rparr>"

definition symbol_set_export :: "asm_state \<Rightarrow> string \<Rightarrow> int \<times> asm_state" where
  "symbol_set_export as name =
     (case symbol_find as name of
        Some i \<Rightarrow> (0, set_flags as i SYM_EXPORT)
      | None \<Rightarrow>
          (case symbol_add as name of
             (None, as1) \<Rightarrow> (-1, as1)
           | (Some i, as1) \<Rightarrow> (0, set_flags as1 i SYM_EXPORT)))"

text \<open>The tail of \<^verbatim>\<open>symbol_set_extern\<close>: the ordered list of extern names, without duplicates.\<close>

definition add_extern :: "asm_state \<Rightarrow> string \<Rightarrow> asm_state" where
  "add_extern as name =
     (if name \<in> set (externs as) then as
      else if length (externs as) < MAX_EXTERNS
        then as\<lparr>externs := externs as @ [str_copy name MAX_LABEL_LEN]\<rparr>
      else as)"

definition symbol_set_extern :: "asm_state \<Rightarrow> string \<Rightarrow> int \<times> asm_state" where
  "symbol_set_extern as name =
     (case symbol_find as name of
        Some i \<Rightarrow>
          if s_defined (symbols as ! i) then (-1, asm_error as)
          else (0, add_extern (set_flags as i SYM_EXTERN) name)
      | None \<Rightarrow>
          (case symbol_add as name of
             (None, as1) \<Rightarrow> (-1, as1)
           | (Some i, as1) \<Rightarrow> (0, add_extern (set_flags as1 i SYM_EXTERN) name)))"

text \<open>\<^verbatim>\<open>symbol_extern_index\<close>: the first position of the name in the extern list.\<close>

fun index_of :: "string \<Rightarrow> string list \<Rightarrow> nat option" where
  "index_of name [] = None"
| "index_of name (e # es) =
     (if name = e then Some 0 else map_option Suc (index_of name es))"

definition symbol_extern_index :: "asm_state \<Rightarrow> string \<Rightarrow> nat option" where
  "symbol_extern_index as name = index_of name (externs as)"

definition symbol_is_local :: "string \<Rightarrow> bool" where
  "symbol_is_local name = (case name of [] \<Rightarrow> False | c # _ \<Rightarrow> c = CHR ''@'')"

text \<open>\<^verbatim>\<open>sprintf(scope_str, ":%d", as->local_scope)\<close>: the decimal digits of the counter.\<close>

fun decimal :: "nat \<Rightarrow> string" where
  "decimal n = (if n < 10 then [char_of (48 + n)]
                else decimal (n div 10) @ [char_of (48 + n mod 10)])"

declare decimal.simps [simp del]

definition symbol_mangle_local :: "asm_state \<Rightarrow> string \<Rightarrow> nat \<Rightarrow> string" where
  "symbol_mangle_local as name max_len =
     (let out = take (max_len - 1) name
      in out @ take (max_len - 1 - length out) (CHR '':'' # decimal (local_scope as)))"

subsection \<open>Code emission\<close>

definition emit_byte :: "asm_state \<Rightarrow> uint8 \<Rightarrow> asm_state" where
  "emit_byte as b =
     (let as1 =
        (if pass as = 2 then
           (if current_section as = SECT_CODE
              then as\<lparr>code_tmp := map_option (\<lambda>f. f @ [b]) (code_tmp as),
                      code_size := code_size as + 1\<rparr>
            else if current_section as = SECT_DATA
              then as\<lparr>data_tmp := map_option (\<lambda>f. f @ [b]) (data_tmp as),
                      data_size := data_size as + 1\<rparr>
            else if current_section as = SECT_BSS
              then as\<lparr>bss_size := bss_size as + 1\<rparr>
            else as)
         else as)
      in as1\<lparr>pc := pc as1 + 1\<rparr>)"

definition emit_word :: "asm_state \<Rightarrow> uint24 \<Rightarrow> asm_state" where
  "emit_word as w =
     emit_byte (emit_byte as (ucast (w AND 0xFF))) (ucast (drop_bit 8 w AND 0xFF))"

definition emit_long :: "asm_state \<Rightarrow> uint24 \<Rightarrow> asm_state" where
  "emit_long as l =
     emit_byte (emit_byte (emit_byte as (ucast (l AND 0xFF)))
                  (ucast (drop_bit 8 l AND 0xFF)))
       (ucast (drop_bit 16 l AND 0xFF))"

definition emit_reloc :: "asm_state \<Rightarrow> uint8 \<Rightarrow> string \<Rightarrow> asm_state" where
  "emit_reloc as ty sym_name =
     (case reloc_tmp as of
        Some relocs \<Rightarrow>
          if pass as = 2 \<and> sym_name \<noteq> [] then
            (let r0 = \<lparr>r_offset = (if current_section as = SECT_CODE then code_size as
                                     else data_size as),
                       r_section = current_section as, r_type = ty,
                       r_target_sect = 0, r_ext_index = 0\<rparr>;
                 r = (case symbol_extern_index as sym_name of
                        Some ext_idx \<Rightarrow> r0\<lparr>r_target_sect := 0, r_ext_index := of_nat ext_idx\<rparr>
                      | None \<Rightarrow>
                          (case symbol_find as sym_name of
                             Some i \<Rightarrow>
                               if s_defined (symbols as ! i)
                               then r0\<lparr>r_target_sect := s_section (symbols as ! i)\<rparr>
                               else r0\<lparr>r_target_sect := current_section as\<rparr>
                           | None \<Rightarrow> r0\<lparr>r_target_sect := current_section as\<rparr>))
             in as\<lparr>reloc_tmp := Some (relocs @ [r]), num_relocs := num_relocs as + 1\<rparr>)
          else as
      | None \<Rightarrow> as)"


subsection \<open>Expression parser\<close>

text \<open>C's signed division on \<open>int24\<close> truncates towards zero.\<close>

definition c_div :: "int24 \<Rightarrow> int24 \<Rightarrow> int24" where
  "c_div a b = word_of_int (sint a sdiv sint b)"

text \<open>
  The out-parameters \<^verbatim>\<open>symbol_out\<close> and \<^verbatim>\<open>has_symbol\<close> travel as a pair: a function
  gets what the caller's buffers hold and returns what they hold afterwards.
\<close>

type_synonym sym_out = "string \<times> bool"

text \<open>The identifier case of \<^verbatim>\<open>parse_expr_primary\<close>, before the token is consumed.\<close>

definition primary_ident :: "asm_state \<Rightarrow> sym_out \<Rightarrow> int24 \<times> sym_out \<times> asm_state" where
  "primary_ident as so =
     (let lookup_name =
            (if symbol_is_local (cur_text as)
             then symbol_mangle_local as (cur_text as) MAX_LABEL_LEN
             else str_copy (cur_text as) MAX_LABEL_LEN);
          found = symbol_find as lookup_name
      in case found of
           Some i \<Rightarrow>
             if s_defined (symbols as ! i) then
               (s_value (symbols as ! i),
                (if s_section (symbols as ! i) \<noteq> 0
                 then (str_copy lookup_name MAX_LABEL_LEN, True) else so),
                as)
             else if s_flags (symbols as ! i) = SYM_EXTERN then
               (0, (str_copy lookup_name MAX_LABEL_LEN, True), as)
             else if pass as = 1 then (0, (str_copy lookup_name MAX_LABEL_LEN, True), as)
             else (0, so, asm_error as)
         | None \<Rightarrow>
             if pass as = 1 then (0, (str_copy lookup_name MAX_LABEL_LEN, True), as)
             else (0, so, asm_error as))"

text \<open>
  The symbol bookkeeping of one turn of the loop in \<^verbatim>\<open>parse_expr_add\<close>, after the
  right operand has been parsed: the new value and the new left symbol.
\<close>

definition add_combine ::
  "asm_state \<Rightarrow> tok_type \<Rightarrow> int24 \<Rightarrow> sym_out \<Rightarrow> int24 \<Rightarrow> sym_out \<Rightarrow> int24 \<times> sym_out" where
  "add_combine as op val lhs rhs rhs_so =
     (if op = TOK_PLUS then
        (val + rhs,
         if snd rhs_so \<and> \<not> snd lhs then (str_copy (fst rhs_so) MAX_LABEL_LEN, True) else lhs)
      else
        (val - rhs,
         if snd lhs \<and> snd rhs_so then
           (case (symbol_find as (fst lhs), symbol_find as (fst rhs_so)) of
              (Some i, Some j) \<Rightarrow>
                if s_section (symbols as ! i) = s_section (symbols as ! j) \<and>
                   s_section (symbols as ! i) \<noteq> 0
                then ([], False) else lhs
            | _ \<Rightarrow> lhs)
         else if snd rhs_so \<and> \<not> snd lhs then (str_copy (fst rhs_so) MAX_LABEL_LEN, True)
         else lhs))"

text \<open>
  One turn of the loop in \<^verbatim>\<open>parse_expr_mul\<close>, after the right operand has been parsed:
  a zero divisor is reported and the value is left as it is.
\<close>

definition mul_combine :: "asm_state \<Rightarrow> tok_type \<Rightarrow> int24 \<Rightarrow> int24 \<Rightarrow> int24 \<times> asm_state" where
  "mul_combine as op val rhs =
     (if op = TOK_STAR then (val * rhs, as)
      else if rhs = 0 then (val, asm_error as)
      else (c_div val rhs, as))"

text \<open>
  The three mutually recursive parsers and their two loops. The recursion follows the
  tokens of the line, which the lexer produces one at a time; the functions carry a
  step budget that every call lowers by one, and \<open>None\<close> means the budget ran out.
  \<open>parse_expression\<close> below supplies a budget that always suffices
  (\<open>parse_expr_add_enough\<close>). The five functions are one recursion on the budget over the
  call to be made: \<open>parse_step\<close> is the body of the called function, with \<open>rec\<close> for
  the calls it makes.
\<close>

type_synonym parse_result = "(int24 \<times> sym_out \<times> asm_state) option"

datatype parse_call =
    Primary asm_state sym_out
  | Mul asm_state sym_out
  | Mul_loop int24 asm_state sym_out
  | Add asm_state
  | Add_loop int24 sym_out asm_state

definition parse_step :: "(parse_call \<Rightarrow> parse_result) \<Rightarrow> parse_call \<Rightarrow> parse_result" where
  "parse_step rec c =
     (case c of
        Primary as so \<Rightarrow>
          (if cur_type as = TOK_NUMBER \<or> cur_type as = TOK_CHAR
             then Some (tk_value (current_token as), so, lexer_next as)
           else if cur_type as = TOK_DOLLAR
             then Some (pc (lexer_next as), so, lexer_next as)
           else if cur_type as = TOK_IDENT
             then (case primary_ident as so of (v, so1, as1) \<Rightarrow> Some (v, so1, lexer_next as1))
           else if cur_type as = TOK_LPAREN
             then (case rec (Add (lexer_next as)) of
                     None \<Rightarrow> None
                   | Some (v, so1, as1) \<Rightarrow>
                       if cur_type as1 \<noteq> TOK_RPAREN then Some (v, so1, asm_error as1)
                       else Some (v, so1, lexer_next as1))
           else if cur_type as = TOK_MINUS
             then (case rec (Primary (lexer_next as) so) of
                     None \<Rightarrow> None
                   | Some (v, so1, as1) \<Rightarrow> Some (- v, so1, as1))
           else if cur_type as = TOK_PLUS
             then rec (Primary (lexer_next as) so)
           else Some (0, so, as))
      | Mul as so \<Rightarrow>
          (case rec (Primary as so) of
             None \<Rightarrow> None
           | Some (v, so1, as1) \<Rightarrow> rec (Mul_loop v as1 so1))
      | Mul_loop val as so \<Rightarrow>
          (if cur_type as = TOK_STAR \<or> cur_type as = TOK_SLASH
           then (case rec (Primary (lexer_next as) so) of
                   None \<Rightarrow> None
                 | Some (rhs, so1, as1) \<Rightarrow>
                     (case mul_combine as1 (cur_type as) val rhs of
                        (val1, as2) \<Rightarrow> rec (Mul_loop val1 as2 so1)))
           else Some (val, so, as))
      | Add as \<Rightarrow>
          (case rec (Mul as ([], False)) of
             None \<Rightarrow> None
           | Some (v, lhs, as1) \<Rightarrow> rec (Add_loop v lhs as1))
      | Add_loop val lhs as \<Rightarrow>
          (if cur_type as = TOK_PLUS \<or> cur_type as = TOK_MINUS
           then (case rec (Mul (lexer_next as) ([], False)) of
                   None \<Rightarrow> None
                 | Some (rhs, rhs_so, as1) \<Rightarrow>
                     (case add_combine as1 (cur_type as) val lhs rhs rhs_so of
                        (val1, lhs1) \<Rightarrow> rec (Add_loop val1 lhs1 as1)))
           else Some (val, (str_copy (fst lhs) MAX_LABEL_LEN, snd lhs), as)))"

primrec parse_run :: "nat \<Rightarrow> parse_call \<Rightarrow> parse_result" where
  "parse_run 0 c = None"
| "parse_run (Suc n) c = parse_step (parse_run n) c"

definition parse_expr_primary :: "nat \<Rightarrow> asm_state \<Rightarrow> sym_out \<Rightarrow> parse_result" where
  "parse_expr_primary n as so = parse_run n (Primary as so)"

definition parse_expr_mul :: "nat \<Rightarrow> asm_state \<Rightarrow> sym_out \<Rightarrow> parse_result" where
  "parse_expr_mul n as so = parse_run n (Mul as so)"

definition parse_expr_add :: "nat \<Rightarrow> asm_state \<Rightarrow> parse_result" where
  "parse_expr_add n as = parse_run n (Add as)"

text \<open>
  What is left to read: the characters of the line, and one more while the current token
  is not the end of the line.
\<close>

definition tokens_left :: "asm_state \<Rightarrow> nat" where
  "tokens_left as = length (line_ptr as) + (if cur_type as = TOK_EOL then 0 else 1)"

text \<open>
  \<^verbatim>\<open>parse_expression\<close>: the flag \<open>has_symbol\<close> it returns, the value, the symbol name
  and the state.
\<close>

definition parse_expression :: "asm_state \<Rightarrow> bool \<times> int24 \<times> string \<times> asm_state" where
  "parse_expression as =
     (case parse_expr_add (5 * tokens_left as + 5) as of
        Some (v, so, as1) \<Rightarrow> (snd so, v, fst so, as1)
      | None \<Rightarrow> (False, 0, [], as))"


text \<open>
  The state a call starts from, and the rank of a call: with \<open>5 * tokens_left + rank\<close>
  steps a call returns.
\<close>

fun call_state :: "parse_call \<Rightarrow> asm_state" where
  "call_state (Primary as so) = as"
| "call_state (Mul as so) = as"
| "call_state (Mul_loop v as so) = as"
| "call_state (Add as) = as"
| "call_state (Add_loop v so as) = as"

fun call_rank :: "parse_call \<Rightarrow> nat" where
  "call_rank (Primary as so) = 1"
| "call_rank (Mul as so) = 2"
| "call_rank (Mul_loop v as so) = 1"
| "call_rank (Add as) = 3"
| "call_rank (Add_loop v so as) = 1"


text \<open>
  A state with the lexer's cursor and the error count blanked: what the lexer and the
  expression parser leave alone.
\<close>

definition outside_cursor :: "asm_state \<Rightarrow> asm_state" where
  "outside_cursor as = as\<lparr>current_token := mk_token TOK_EOL [] 0, line_ptr := [], errors := 0\<rparr>"



section \<open>The lexer consumes the line; the expression parser returns\<close>

lemma lex_digits_length: "lex_digits base k l = (t, r) \<Longrightarrow> length r \<le> length l"
  by (induction base k l arbitrary: t r rule: lex_digits.induct)
     (auto split: if_splits prod.splits)

lemma lex_while_length: "lex_while P k l = (t, r) \<Longrightarrow> length r \<le> length l"
  by (induction P k l arbitrary: t r rule: lex_while.induct)
     (auto split: if_splits prod.splits)

lemma lex_while_first:
  "lex_while P (Suc k) (c # cs) = (t, r) \<Longrightarrow> P c \<Longrightarrow> length r \<le> length cs"
  by (auto split: prod.splits dest: lex_while_length)

lemma lex_string_length: "lex_string k l = (t, r) \<Longrightarrow> length r \<le> length l"
proof (induction k l arbitrary: t r rule: lex_string.induct)
  case (3 k c cs)
  then show ?case
    by (cases cs) (auto split: if_splits prod.splits)
qed auto

lemma skip_whitespace_length: "length (skip_whitespace l) \<le> length l"
  by (simp add: skip_whitespace_def length_dropWhile_le)

lemma lex_digits_first:
  assumes "lex_digits base k (c # cs) = (t, r)" "0 < k"
    "(base = 16 \<and> c_isxdigit c) \<or> (base = 10 \<and> c_isdigit c)"
  shows "length r \<le> length cs"
proof -
  from assms(2) obtain k' where k: "k = Suc k'" by (cases k) auto
  obtain t' r' where rec: "lex_digits base k' cs = (t', r')" by (cases "lex_digits base k' cs")
  from assms(1,3) k rec have "r = r'" by auto
  with lex_digits_length[OF rec] show ?thesis by simp
qed

lemma lex_while_first':
  assumes "lex_while P k (c # cs) = (t, r)" "0 < k" "P c"
  shows "length r \<le> length cs"
proof -
  from assms(2) obtain k' where k: "k = Suc k'" by (cases k) auto
  from lex_while_first[of P k' c cs t r] assms k show ?thesis by simp
qed

lemma lex_number_length:
  assumes "lex_number (c # cs) = (t, r)" "c_isdigit c"
  shows "length r \<le> length cs"
proof -
  have x: "c_isxdigit c" using assms(2) by (auto simp: c_isdigit_def c_isxdigit_def Let_def)
  have k: "0 < MAX_LABEL_LEN - 1" by (simp add: MAX_LABEL_LEN_def)
  define prefixed where "prefixed = (case c # cs of c0 # c1 # _ \<Rightarrow> c0 = CHR ''0'' \<and> (c1 = CHR ''x'' \<or> c1 = CHR ''X'')
                      | _ \<Rightarrow> False)"
  define base :: nat where "base = (if prefixed \<or> (case dropWhile c_isxdigit (c # cs) of [] \<Rightarrow> False
                      | h # q \<Rightarrow> (h = CHR ''h'' \<or> h = CHR ''H'') \<and>
                                 \<not> (case q of [] \<Rightarrow> False | d # _ \<Rightarrow> is_ident_char d)) then 16 else 10)"
  have b: "base = 16 \<or> base = 10" by (simp add: base_def)
  obtain tx rst where lexd:
    "lex_digits base (MAX_LABEL_LEN - 1) (if prefixed then drop 2 (c # cs) else c # cs) = (tx, rst)"
    by (cases "lex_digits base (MAX_LABEL_LEN - 1) (if prefixed then drop 2 (c # cs) else c # cs)")
  have r: "r = rst"
    using assms(1) lexd unfolding lex_number_def prefixed_def[symmetric] Let_def base_def[symmetric]
    by simp
  show ?thesis
  proof (cases prefixed)
    case True
    with lex_digits_length[OF lexd] r show ?thesis by (cases cs) auto
  next
    case False
    with lexd have "lex_digits base (MAX_LABEL_LEN - 1) (c # cs) = (tx, rst)" by simp
    from lex_digits_first[OF this k] b x assms(2) r show ?thesis by auto
  qed
qed


lemma ident_start_char: "is_ident_start c \<Longrightarrow> is_ident_char c"
  by (auto simp: is_ident_start_def is_ident_char_def c_isalnum_def)

lemma label_or_ident_length: "label_or_ident tx l = (t, r) \<Longrightarrow> length r \<le> length l"
  by (cases l) (auto simp: label_or_ident_def split: if_splits)

lemma skip_char_length: "length (skip_char x l) \<le> length l"
  by (cases l) (auto simp: skip_char_def)

lemma lex_ident_length:
  assumes "lex_ident (c # cs) = (t, r)" "is_ident_start c"
  shows "length r \<le> length cs"
proof -
  have k: "0 < MAX_LABEL_LEN - 1" by (simp add: MAX_LABEL_LEN_def)
  obtain t0 r0 where lw: "lex_while is_ident_char (MAX_LABEL_LEN - 1) (c # cs) = (t0, r0)"
    by (cases "lex_while is_ident_char (MAX_LABEL_LEN - 1) (c # cs)")
  from lex_while_first'[OF lw k ident_start_char[OF assms(2)]] have l0: "length r0 \<le> length cs" .
  define alt where "alt = (length t0 = 2 \<and> r0 \<noteq> [] \<and> hd r0 = CHR 0x27 \<and>
                 (t0 ! 0 = CHR ''a'' \<or> t0 ! 0 = CHR ''A'') \<and>
                 (t0 ! 1 = CHR ''f'' \<or> t0 ! 1 = CHR ''F''))"
  have l1: "length (skip_whitespace (if alt then tl r0 else r0)) \<le> length r0"
    by (rule order_trans[OF skip_whitespace_length]) (cases r0; simp)
  have "label_or_ident (if alt then t0 @ [CHR 0x27] else t0)
           (skip_whitespace (if alt then tl r0 else r0)) = (t, r)"
    using assms(1) lw unfolding lex_ident_def Let_def alt_def by simp
  from label_or_ident_length[OF this] l0 l1 show ?thesis by simp
qed

lemma lex_string_literal_length:
  assumes "lex_string_literal l = (t, r, e)"
  shows "length r \<le> length l"
proof -
  obtain t0 r0 where ls: "lex_string (MAX_STRING_LEN - 1) l = (t0, r0)"
    by (cases "lex_string (MAX_STRING_LEN - 1) l")
  define r1 where "r1 = (if r0 \<noteq> [] \<and> hd r0 \<noteq> CHR 0x22
                          then dropWhile (\<lambda>c. c \<noteq> CHR 0x22) r0 else r0)"
  have l1: "length r1 \<le> length r0" by (simp add: r1_def length_dropWhile_le)
  have "r = skip_char (CHR 0x22) r1"
    using assms ls unfolding lex_string_literal_def Let_def r1_def by simp
  with l1 lex_string_length[OF ls] skip_char_length[of "CHR 0x22" r1] show ?thesis by simp
qed

lemma lex_char_literal_length:
  assumes "lex_char_literal l = (t, r)"
  shows "length r \<le> length l"
proof -
  define p where "p = (case l of
               c # d # r \<Rightarrow> if c = CHR 0x5C then (char_escape d, r) else (c, d # r)
             | [c] \<Rightarrow> (c, [])
             | [] \<Rightarrow> (CHR 0x00, []))"
  have l0: "length (snd p) \<le> length l"
    by (auto simp: p_def split: list.splits)
  have "r = skip_char (CHR 0x27) (snd p)"
    using assms unfolding lex_char_literal_def Let_def p_def[symmetric]
    by (simp add: case_prod_beta)
  with l0 skip_char_length[of "CHR 0x27" "snd p"] show ?thesis by simp
qed

lemma lex_shrinks:
  assumes "lex l = (t, r, e)"
  shows "length r \<le> length l \<and> (tk_type t \<noteq> TOK_EOL \<longrightarrow> length r < length l)"
proof (cases "skip_whitespace l")
  case Nil
  with assms show ?thesis by (auto simp: lex_def mk_token_def)
next
  case (Cons c cs)
  have sl: "length (c # cs) \<le> length l" using skip_whitespace_length[of l] Cons by simp
  show ?thesis
  proof (cases "c = CHR 0x0A \<or> c = CHR '';'' \<or> c = CHR ''#''")
    case True
    with assms Cons sl show ?thesis by (auto simp: lex_def mk_token_def)
  next
    case notend: False
    show ?thesis
    proof (cases "single_char_token c")
      case (Some ty)
      with assms Cons notend sl show ?thesis by (auto simp: lex_def)
    next
      case None
      have "length r \<le> length cs"
      proof -
        note base = assms Cons notend None
        consider (num) "c_isdigit c"
          | (hex) "\<not> c_isdigit c" "c = CHR ''$'' \<and> cs \<noteq> [] \<and> c_isxdigit (hd cs)"
          | (bin) "\<not> c_isdigit c" "\<not> (c = CHR ''$'' \<and> cs \<noteq> [] \<and> c_isxdigit (hd cs))"
                  "c = CHR ''%'' \<and> cs \<noteq> [] \<and> (hd cs = CHR ''0'' \<or> hd cs = CHR ''1'')"
          | (other) "\<not> c_isdigit c" "\<not> (c = CHR ''$'' \<and> cs \<noteq> [] \<and> c_isxdigit (hd cs))"
                  "\<not> (c = CHR ''%'' \<and> cs \<noteq> [] \<and> (hd cs = CHR ''0'' \<or> hd cs = CHR ''1''))"
          by blast
        then show ?thesis
        proof cases
          case num
          with base show ?thesis
            by (auto simp: lex_def split: prod.splits dest: lex_number_length)
        next
          case hex
          with base show ?thesis
            by (auto simp: lex_def split: prod.splits dest: lex_while_length)
        next
          case bin
          with base show ?thesis
            by (auto simp: lex_def split: prod.splits dest: lex_while_length)
        next
          case other
          with base show ?thesis
            by (auto simp: lex_def split: prod.splits if_splits
                     dest: lex_ident_length lex_string_literal_length lex_char_literal_length)
        qed
      qed
      with sl show ?thesis by simp
    qed
  qed
qed

lemma tokens_left_next:
  "tokens_left (lexer_next as) \<le> tokens_left as"
  "cur_type as \<noteq> TOK_EOL \<Longrightarrow> tokens_left (lexer_next as) < tokens_left as"
proof -
  obtain t r e where l: "lex (line_ptr as) = (t, r, e)" by (cases "lex (line_ptr as)")
  from lex_shrinks[OF l] l show "tokens_left (lexer_next as) \<le> tokens_left as"
    by (auto simp: tokens_left_def lexer_next_def)
  from lex_shrinks[OF l] l show "cur_type as \<noteq> TOK_EOL \<Longrightarrow> tokens_left (lexer_next as) < tokens_left as"
    by (auto simp: tokens_left_def lexer_next_def)
qed


lemma tokens_left_error [simp]: "tokens_left (asm_error as) = tokens_left as"
  by (simp add: tokens_left_def asm_error_def)

lemma primary_ident_left:
  "primary_ident as so = (v, so1, as1) \<Longrightarrow> tokens_left as1 = tokens_left as \<and> cur_type as1 = cur_type as"
  by (auto simp: primary_ident_def Let_def asm_error_def tokens_left_def split: option.splits if_splits)

lemma mul_combine_left:
  "mul_combine as op val rhs = (v, as1) \<Longrightarrow> tokens_left as1 = tokens_left as"
  by (auto simp: mul_combine_def split: if_splits)

lemma parse_run_enough:
  "5 * tokens_left (call_state c) + call_rank c \<le> n \<Longrightarrow>
   \<exists>v so as'. parse_run n c = Some (v, so, as') \<and> tokens_left as' \<le> tokens_left (call_state c)"
proof (induction n arbitrary: c)
  case 0
  then show ?case by (cases c) auto
next
  case (Suc n)
  note tl = tokens_left_next
  note [simp] = parse_step_def
  show ?case
  proof (cases c)
    case (Primary as so)
    with Suc.prems have b: "5 * tokens_left as \<le> n" by simp
    consider (simple) "cur_type as \<noteq> TOK_LPAREN" "cur_type as \<noteq> TOK_MINUS" "cur_type as \<noteq> TOK_PLUS"
      | (paren) "cur_type as = TOK_LPAREN" | (minus) "cur_type as = TOK_MINUS"
      | (plus) "cur_type as = TOK_PLUS" by blast
    then show ?thesis
    proof cases
      case simple
      then show ?thesis
        using Primary tl(1)[of as] primary_ident_left[of as so]
        apply (auto split: prod.splits)
        apply (metis le_trans tokens_left_next(1))
        done
    next
      case paren
      then have lt: "tokens_left (lexer_next as) < tokens_left as" by (intro tl(2)) simp
      with b have "5 * tokens_left (call_state (Add (lexer_next as))) + call_rank (Add (lexer_next as)) \<le> n"
        by simp
      from Suc.IH[OF this] obtain v so1 as1 where
        r: "parse_run n (Add (lexer_next as)) = Some (v, so1, as1)"
        and l: "tokens_left as1 \<le> tokens_left (lexer_next as)" by auto
      from tl(1)[of as1] l lt show ?thesis using Primary paren r by auto
    next
      case minus
      then have lt: "tokens_left (lexer_next as) < tokens_left as" by (intro tl(2)) simp
      with b have "5 * tokens_left (call_state (Primary (lexer_next as) so))
                     + call_rank (Primary (lexer_next as) so) \<le> n" by simp
      from Suc.IH[OF this] obtain v so1 as1 where
        r: "parse_run n (Primary (lexer_next as) so) = Some (v, so1, as1)"
        and l: "tokens_left as1 \<le> tokens_left (lexer_next as)" by auto
      from l lt show ?thesis using Primary minus r by auto
    next
      case plus
      then have lt: "tokens_left (lexer_next as) < tokens_left as" by (intro tl(2)) simp
      with b have "5 * tokens_left (call_state (Primary (lexer_next as) so))
                     + call_rank (Primary (lexer_next as) so) \<le> n" by simp
      from Suc.IH[OF this] obtain v so1 as1 where
        r: "parse_run n (Primary (lexer_next as) so) = Some (v, so1, as1)"
        and l: "tokens_left as1 \<le> tokens_left (lexer_next as)" by auto
      from l lt show ?thesis using Primary plus r by auto
    qed
  next
    case (Mul as so)
    with Suc.prems have "5 * tokens_left (call_state (Primary as so)) + call_rank (Primary as so) \<le> n"
      by simp
    from Suc.IH[OF this] obtain v so1 as1 where
      r: "parse_run n (Primary as so) = Some (v, so1, as1)"
      and l: "tokens_left as1 \<le> tokens_left as" by auto
    with Mul Suc.prems have "5 * tokens_left (call_state (Mul_loop v as1 so1))
                     + call_rank (Mul_loop v as1 so1) \<le> n" by simp
    from Suc.IH[OF this] obtain v2 so2 as2 where
      r2: "parse_run n (Mul_loop v as1 so1) = Some (v2, so2, as2)"
      and l2: "tokens_left as2 \<le> tokens_left as1" by auto
    from l l2 show ?thesis using Mul r r2 by auto
  next
    case (Mul_loop val as so)
    show ?thesis
    proof (cases "cur_type as = TOK_STAR \<or> cur_type as = TOK_SLASH")
      case False
      then show ?thesis using Mul_loop by auto
    next
      case True
      then have lt: "tokens_left (lexer_next as) < tokens_left as" by (intro tl(2)) auto
      with Mul_loop Suc.prems have "5 * tokens_left (call_state (Primary (lexer_next as) so))
                     + call_rank (Primary (lexer_next as) so) \<le> n" by simp
      from Suc.IH[OF this] obtain rhs so1 as1 where
        r: "parse_run n (Primary (lexer_next as) so) = Some (rhs, so1, as1)"
        and l: "tokens_left as1 \<le> tokens_left (lexer_next as)" by auto
      obtain val1 as2 where mc: "mul_combine as1 (cur_type as) val rhs = (val1, as2)"
        by (cases "mul_combine as1 (cur_type as) val rhs")
      from mul_combine_left[OF mc] l lt Mul_loop Suc.prems
      have "5 * tokens_left (call_state (Mul_loop val1 as2 so1))
                     + call_rank (Mul_loop val1 as2 so1) \<le> n" by simp
      from Suc.IH[OF this] obtain v2 so2 as3 where
        r2: "parse_run n (Mul_loop val1 as2 so1) = Some (v2, so2, as3)"
        and l2: "tokens_left as3 \<le> tokens_left as2" by auto
      from l l2 lt mul_combine_left[OF mc] show ?thesis using Mul_loop True r mc r2 by auto
    qed
  next
    case (Add as)
    with Suc.prems have "5 * tokens_left (call_state (Mul as ([], False)))
                           + call_rank (Mul as ([], False)) \<le> n" by simp
    from Suc.IH[OF this] obtain v so1 as1 where
      r: "parse_run n (Mul as ([], False)) = Some (v, so1, as1)"
      and l: "tokens_left as1 \<le> tokens_left as" by auto
    with Add Suc.prems have "5 * tokens_left (call_state (Add_loop v so1 as1))
                     + call_rank (Add_loop v so1 as1) \<le> n" by simp
    from Suc.IH[OF this] obtain v2 so2 as2 where
      r2: "parse_run n (Add_loop v so1 as1) = Some (v2, so2, as2)"
      and l2: "tokens_left as2 \<le> tokens_left as1" by auto
    from l l2 show ?thesis using Add r r2 by auto
  next
    case (Add_loop val lhs as)
    show ?thesis
    proof (cases "cur_type as = TOK_PLUS \<or> cur_type as = TOK_MINUS")
      case False
      then show ?thesis using Add_loop by auto
    next
      case True
      then have lt: "tokens_left (lexer_next as) < tokens_left as" by (intro tl(2)) auto
      with Add_loop Suc.prems have "5 * tokens_left (call_state (Mul (lexer_next as) ([], False)))
                     + call_rank (Mul (lexer_next as) ([], False)) \<le> n" by simp
      from Suc.IH[OF this] obtain rhs so1 as1 where
        r: "parse_run n (Mul (lexer_next as) ([], False)) = Some (rhs, so1, as1)"
        and l: "tokens_left as1 \<le> tokens_left (lexer_next as)" by auto
      obtain val1 lhs1 where ac: "add_combine as1 (cur_type as) val lhs rhs so1 = (val1, lhs1)"
        by (cases "add_combine as1 (cur_type as) val lhs rhs so1")
      from l lt Add_loop Suc.prems
      have "5 * tokens_left (call_state (Add_loop val1 lhs1 as1))
                     + call_rank (Add_loop val1 lhs1 as1) \<le> n" by simp
      from Suc.IH[OF this] obtain v2 so2 as3 where
        r2: "parse_run n (Add_loop val1 lhs1 as1) = Some (v2, so2, as3)"
        and l2: "tokens_left as3 \<le> tokens_left as1" by auto
      from l l2 lt show ?thesis using Add_loop True r ac r2 by auto
    qed
  qed
qed

lemma parse_expr_add_enough:
  "\<exists>v so as'. parse_expr_add (5 * tokens_left as + 5) as = Some (v, so, as') \<and>
     tokens_left as' \<le> tokens_left as"
  using parse_run_enough[of "Add as" "5 * tokens_left as + 5"]
  by (simp add: parse_expr_add_def)


section \<open>Directives (ez80dir.c)\<close>

text \<open>A run of \<^verbatim>\<open>emit_byte\<close> calls, and a character as the byte \<^verbatim>\<open>(uint8)*p\<close>.\<close>

definition emit_bytes :: "asm_state \<Rightarrow> uint8 list \<Rightarrow> asm_state" where
  "emit_bytes as bs = foldl emit_byte as bs"

definition char_byte :: "char \<Rightarrow> uint8" where
  "char_byte c = of_nat (of_char c)"

lemma parse_expression_left:
  "parse_expression as = (h, v, s, as') \<Longrightarrow> tokens_left as' \<le> tokens_left as"
  using parse_expr_add_enough[of as] by (auto simp: parse_expression_def)

lemma tokens_left_emit_byte [simp]: "tokens_left (emit_byte as b) = tokens_left as"
  by (simp add: tokens_left_def emit_byte_def Let_def)

lemma current_token_emit_byte [simp]: "current_token (emit_byte as b) = current_token as"
  by (simp add: emit_byte_def Let_def)

lemma tokens_left_emit_bytes [simp]: "tokens_left (emit_bytes as bs) = tokens_left as"
  unfolding emit_bytes_def by (induction bs arbitrary: as) simp_all

lemma current_token_emit_bytes [simp]: "current_token (emit_bytes as bs) = current_token as"
  unfolding emit_bytes_def by (induction bs arbitrary: as) simp_all

lemma tokens_left_emit_word [simp]: "tokens_left (emit_word as w) = tokens_left as"
  by (simp add: emit_word_def)

lemma tokens_left_emit_long [simp]: "tokens_left (emit_long as w) = tokens_left as"
  by (simp add: emit_long_def)

lemma current_token_emit_word [simp]: "current_token (emit_word as w) = current_token as"
  by (simp add: emit_word_def)

lemma current_token_emit_long [simp]: "current_token (emit_long as w) = current_token as"
  by (simp add: emit_long_def)

lemma tokens_left_emit_reloc [simp]: "tokens_left (emit_reloc as ty s) = tokens_left as"
  by (simp add: tokens_left_def emit_reloc_def Let_def split: option.splits)

lemma current_token_emit_reloc [simp]: "current_token (emit_reloc as ty s) = current_token as"
  by (simp add: emit_reloc_def Let_def split: option.splits)

lemma symbol_add_cursor:
  "line_ptr (snd (symbol_add as name)) = line_ptr as"
  "current_token (snd (symbol_add as name)) = current_token as"
  by (simp_all add: symbol_add_def asm_error_def)

lemma symbol_set_export_cursor:
  "line_ptr (snd (symbol_set_export as name)) = line_ptr as"
  "current_token (snd (symbol_set_export as name)) = current_token as"
  using symbol_add_cursor[of as name]
  by (auto simp: symbol_set_export_def set_flags_def split: option.splits prod.splits)

lemma symbol_set_extern_cursor:
  "line_ptr (snd (symbol_set_extern as name)) = line_ptr as"
  "current_token (snd (symbol_set_extern as name)) = current_token as"
  using symbol_add_cursor[of as name]
  by (auto simp: symbol_set_extern_def set_flags_def add_extern_def asm_error_def
           split: option.splits prod.splits)

subsection \<open>org, equ\<close>

definition dir_org :: "asm_state \<Rightarrow> int \<times> asm_state" where
  "dir_org as =
     (case parse_expression (lexer_next as) of (has_sym, v, sname, as1) \<Rightarrow>
        if has_sym then (-1, asm_error as1)
        else (0, as1\<lparr>pc := v AND 0xFFFFFF\<rparr>))"

definition dir_equ :: "asm_state \<Rightarrow> string \<Rightarrow> int \<times> asm_state" where
  "dir_equ as label =
     (if label = [] then (-1, asm_error as)
      else (case parse_expression (lexer_next as) of (has_sym, v, sname, as1) \<Rightarrow>
              if has_sym \<and> pass as1 = 2 then (-1, asm_error as1)
              else
                (let val = (if has_sym then 0 else v);
                     saved_section = current_section as1;
                     as2 = snd (symbol_define (as1\<lparr>current_section := 0\<rparr>) label val)
                 in (0, as2\<lparr>current_section := saved_section\<rparr>))))"

subsection \<open>db, dw, dl, ds\<close>

text \<open>
  One operand of \<^verbatim>\<open>db\<close>: a string token is emitted character by character up to the
  NUL that ends \<^verbatim>\<open>tok->text\<close> as a C string; anything else is an expression, which must
  be constant. \<open>Some rc\<close> is an early return.
\<close>

definition db_item :: "asm_state \<Rightarrow> int option \<times> asm_state" where
  "db_item as =
     (if cur_type as = TOK_STRING
      then (None, lexer_next (emit_bytes as (map char_byte (cur_text as))))
      else (case parse_expression as of (has_sym, v, sname, as1) \<Rightarrow>
              if has_sym then (Some (-1), asm_error as1)
              else (None, emit_byte as1 (ucast (v AND 0xFF)))))"

lemma db_item_left: "db_item as = (r, as1) \<Longrightarrow> tokens_left as1 \<le> tokens_left as"
  using tokens_left_next(1)[of "emit_bytes as (map char_byte (cur_text as))"]
  by (auto simp: db_item_def split: if_splits prod.splits dest: parse_expression_left)

function dir_db_loop :: "asm_state \<Rightarrow> int \<times> asm_state" where
  "dir_db_loop as =
     (case db_item as of
        (Some rc, as1) \<Rightarrow> (rc, as1)
      | (None, as1) \<Rightarrow>
          if cur_type as1 \<noteq> TOK_COMMA then (0, as1) else dir_db_loop (lexer_next as1))"
  by pat_completeness auto
termination
  apply (relation "measure tokens_left")
   apply simp
  subgoal for as x1 x2
    using db_item_left[of as None x2] tokens_left_next(2)[of x2] by simp
  done

declare dir_db_loop.simps [simp del]

definition dir_db :: "asm_state \<Rightarrow> int \<times> asm_state" where
  "dir_db as = dir_db_loop (lexer_next as)"

definition dw_item :: "asm_state \<Rightarrow> int option \<times> asm_state" where
  "dw_item as =
     (case parse_expression as of (has_sym, v, sname, as1) \<Rightarrow>
        if has_sym then (Some (-1), asm_error as1)
        else (None, emit_word as1 (v AND 0xFFFF)))"

lemma dw_item_left: "dw_item as = (r, as1) \<Longrightarrow> tokens_left as1 \<le> tokens_left as"
  by (auto simp: dw_item_def split: if_splits prod.splits dest: parse_expression_left)

function dir_dw_loop :: "asm_state \<Rightarrow> int \<times> asm_state" where
  "dir_dw_loop as =
     (case dw_item as of
        (Some rc, as1) \<Rightarrow> (rc, as1)
      | (None, as1) \<Rightarrow>
          if cur_type as1 \<noteq> TOK_COMMA then (0, as1) else dir_dw_loop (lexer_next as1))"
  by pat_completeness auto
termination
  apply (relation "measure tokens_left")
   apply simp
  subgoal for as x1 x2
    using dw_item_left[of as None x2] tokens_left_next(2)[of x2] by simp
  done

declare dir_dw_loop.simps [simp del]

definition dir_dw :: "asm_state \<Rightarrow> int \<times> asm_state" where
  "dir_dw as = dir_dw_loop (lexer_next as)"

text \<open>One operand of \<^verbatim>\<open>dl\<close>: a relocation record when the expression carries a symbol.\<close>

definition dl_item :: "asm_state \<Rightarrow> asm_state" where
  "dl_item as =
     (case parse_expression as of (has_sym, v, sname, as1) \<Rightarrow>
        emit_long (if has_sym then emit_reloc as1 RELOC_ADDR24 sname else as1)
          (v AND 0xFFFFFF))"

lemma dl_item_left: "tokens_left (dl_item as) \<le> tokens_left as"
  by (auto simp: dl_item_def split: prod.splits dest: parse_expression_left)

function dir_dl_loop :: "asm_state \<Rightarrow> int \<times> asm_state" where
  "dir_dl_loop as =
     (let as1 = dl_item as
      in if cur_type as1 \<noteq> TOK_COMMA then (0, as1) else dir_dl_loop (lexer_next as1))"
  by pat_completeness auto
termination
  apply (relation "measure tokens_left")
   apply simp
  subgoal for as x
    using dl_item_left[of as] tokens_left_next(2)[of "dl_item as"] by simp
  done

declare dir_dl_loop.simps [simp del]

definition dir_dl :: "asm_state \<Rightarrow> int \<times> asm_state" where
  "dir_dl as = dir_dl_loop (lexer_next as)"

text \<open>
  \<^verbatim>\<open>for (i = 0; i < count; i++) emit_byte(as, fill & 0xFF);\<close> with signed \<open>i\<close> and
  \<open>count\<close>: no turn when \<open>count\<close> is zero or negative.
\<close>

definition dir_ds :: "asm_state \<Rightarrow> int \<times> asm_state" where
  "dir_ds as =
     (case parse_expression (lexer_next as) of (has_sym, count, sname, as1) \<Rightarrow>
        if has_sym then (-1, asm_error as1)
        else
          (let (fill, as2) =
                 (if cur_type as1 = TOK_COMMA
                  then (case parse_expression (lexer_next as1) of
                          (has2, v2, sname2, as') \<Rightarrow> (v2, as'))
                  else (0, as1))
           in (0, emit_bytes as2 (replicate (nat (sint count)) (ucast (fill AND 0xFF))))))"

subsection \<open>section\<close>

text \<open>\<^verbatim>\<open>switch (as->current_section)\<close>: the outgoing program counter is saved.\<close>

definition save_section_pc :: "asm_state \<Rightarrow> asm_state" where
  "save_section_pc as =
     (if current_section as = SECT_CODE then as\<lparr>code_pc := pc as\<rparr>
      else if current_section as = SECT_DATA then as\<lparr>data_pc := pc as\<rparr>
      else if current_section as = SECT_BSS then as\<lparr>bss_pc := pc as\<rparr>
      else as)"

text \<open>Entering a section by one of its names restores its program counter.\<close>

definition enter_section :: "uint8 \<Rightarrow> asm_state \<Rightarrow> asm_state" where
  "enter_section sect as =
     (if sect = SECT_CODE then as\<lparr>current_section := SECT_CODE, pc := code_pc as\<rparr>
      else if sect = SECT_DATA then as\<lparr>current_section := SECT_DATA, pc := data_pc as\<rparr>
      else as\<lparr>current_section := SECT_BSS, pc := bss_pc as\<rparr>)"

definition section_of_name :: "string \<Rightarrow> uint8 option" where
  "section_of_name name =
     (if str_casecmp_eq name ''code'' \<or> str_casecmp_eq name ''text'' \<or>
         str_casecmp_eq name ''.text'' then Some SECT_CODE
      else if str_casecmp_eq name ''data'' \<or> str_casecmp_eq name ''.data'' then Some SECT_DATA
      else if str_casecmp_eq name ''bss'' \<or> str_casecmp_eq name ''.bss'' then Some SECT_BSS
      else None)"

definition dir_section :: "asm_state \<Rightarrow> int \<times> asm_state" where
  "dir_section as =
     (let as1 = lexer_next as in
      if cur_type as1 \<noteq> TOK_IDENT then (-1, asm_error as1)
      else
        (let as2 = save_section_pc as1;
             as3 = (case section_of_name (cur_text as1) of
                      Some sect \<Rightarrow> enter_section sect as2
                    | None \<Rightarrow> (asm_warning as2)\<lparr>current_section := SECT_CODE\<rparr>)
         in (0, lexer_next as3)))"

subsection \<open>xdef, xref\<close>

function dir_xdef_loop :: "asm_state \<Rightarrow> int \<times> asm_state" where
  "dir_xdef_loop as =
     (if cur_type as = TOK_IDENT then
        (if symbol_is_local (cur_text as) then (-1, asm_error as)
         else
           (let as1 = lexer_next (snd (symbol_set_export as (cur_text as)))
            in if cur_type as1 \<noteq> TOK_COMMA then (0, as1) else dir_xdef_loop (lexer_next as1)))
      else (0, as))"
  by pat_completeness auto
termination
  apply (relation "measure tokens_left")
   apply simp
  subgoal for as x
    using tokens_left_next(2)[of "snd (symbol_set_export as (cur_text as))"]
      tokens_left_next(2)[of "lexer_next (snd (symbol_set_export as (cur_text as)))"]
      symbol_set_export_cursor[of as "cur_text as"]
    by (simp add: tokens_left_def)
  done

declare dir_xdef_loop.simps [simp del]

definition dir_xdef :: "asm_state \<Rightarrow> int \<times> asm_state" where
  "dir_xdef as = dir_xdef_loop (lexer_next as)"

function dir_xref_loop :: "asm_state \<Rightarrow> int \<times> asm_state" where
  "dir_xref_loop as =
     (if cur_type as = TOK_IDENT then
        (if symbol_is_local (cur_text as) then (-1, asm_error as)
         else
           (let as1 = lexer_next (snd (symbol_set_extern as (cur_text as)))
            in if cur_type as1 \<noteq> TOK_COMMA then (0, as1) else dir_xref_loop (lexer_next as1)))
      else (0, as))"
  by pat_completeness auto
termination
  apply (relation "measure tokens_left")
   apply simp
  subgoal for as x
    using tokens_left_next(2)[of "snd (symbol_set_extern as (cur_text as))"]
      tokens_left_next(2)[of "lexer_next (snd (symbol_set_extern as (cur_text as)))"]
      symbol_set_extern_cursor[of as "cur_text as"]
    by (simp add: tokens_left_def)
  done

declare dir_xref_loop.simps [simp del]

definition dir_xref :: "asm_state \<Rightarrow> int \<times> asm_state" where
  "dir_xref as = dir_xref_loop (lexer_next as)"

subsection \<open>end, align, ascii, asciz, assume, include, incbin\<close>

definition dir_end :: "asm_state \<Rightarrow> int \<times> asm_state" where
  "dir_end as = (0, as)"

text \<open>
  \<^verbatim>\<open>while (as->pc & (align - 1)) emit_byte(as, 0);\<close> for a power of two \<open>align\<close>: each
  byte raises the program counter by one, so the loop emits as many zero bytes as the
  low bits of \<open>- pc\<close> say.
\<close>

definition dir_align :: "asm_state \<Rightarrow> int \<times> asm_state" where
  "dir_align as =
     (case parse_expression (lexer_next as) of (has_sym, align, sname, as1) \<Rightarrow>
        if has_sym then (-1, asm_error as1)
        else if sint align \<le> 0 \<or> align AND (align - 1) \<noteq> 0 then (-1, asm_error as1)
        else (0, emit_bytes as1 (replicate (unat ((- pc as1) AND (align - 1))) 0)))"

definition dir_ascii :: "asm_state \<Rightarrow> int \<times> asm_state" where
  "dir_ascii as =
     (let as1 = lexer_next as in
      if cur_type as1 \<noteq> TOK_STRING then (-1, asm_error as1)
      else (0, lexer_next (emit_bytes as1 (map char_byte (cur_text as1)))))"

definition dir_asciz :: "asm_state \<Rightarrow> int \<times> asm_state" where
  "dir_asciz as =
     (case dir_ascii as of (rc, as1) \<Rightarrow> if rc = 0 then (rc, emit_byte as1 0) else (rc, as1))"

definition dir_assume :: "asm_state \<Rightarrow> int \<times> asm_state" where
  "dir_assume as =
     (let as1 = lexer_next as in
      if cur_type as1 \<noteq> TOK_IDENT \<or> \<not> str_casecmp_eq (cur_text as1) ''ADL''
        then (-1, asm_error as1)
      else
        (let as2 = lexer_next as1 in
         if cur_type as2 \<noteq> TOK_EQUALS then (-1, asm_error as2)
         else
           (let as3 = lexer_next as2 in
            if cur_type as3 \<noteq> TOK_NUMBER then (-1, asm_error as3)
            else if tk_value (current_token as3) = 0 then (-1, asm_error as3)
            else if tk_value (current_token as3) \<noteq> 1 then (-1, asm_error as3)
            else (0, lexer_next as3))))"

text \<open>
  \<^verbatim>\<open>include\<close> and \<^verbatim>\<open>incbin\<close> read other files. The model has no file system: every
  \<^verbatim>\<open>fopen\<close> of such a file fails, which the directives report as an error.
\<close>

definition dir_include :: "asm_state \<Rightarrow> int \<times> asm_state" where
  "dir_include as =
     (let as1 = lexer_next as in
      if cur_type as1 \<noteq> TOK_STRING then (-1, asm_error as1)
      else (-1, asm_error (lexer_next as1)))"

definition dir_incbin :: "asm_state \<Rightarrow> int \<times> asm_state" where
  "dir_incbin as =
     (let as1 = lexer_next as in
      if cur_type as1 \<noteq> TOK_STRING then (-1, asm_error as1)
      else (-1, asm_error (lexer_next as1)))"

subsection \<open>directive\_execute\<close>

definition directive_execute :: "asm_state \<Rightarrow> string \<Rightarrow> int \<times> asm_state" where
  "directive_execute as name =
     (let dir = (case name of c # r \<Rightarrow> if c = CHR ''.'' then r else name | [] \<Rightarrow> name);
          is = (\<lambda>s. str_casecmp_eq dir s)
      in if is ''org'' then dir_org as
         else if is ''db'' \<or> is ''defb'' \<or> is ''byte'' then dir_db as
         else if is ''dw'' \<or> is ''defw'' \<or> is ''word'' then dir_dw as
         else if is ''dl'' \<or> is ''defl'' \<or> is ''long'' \<or> is ''dd'' then dir_dl as
         else if is ''ds'' \<or> is ''defs'' \<or> is ''rmb'' \<or> is ''blkb'' then dir_ds as
         else if is ''section'' \<or> is ''segment'' then dir_section as
         else if is ''xdef'' \<or> is ''public'' \<or> is ''global'' then dir_xdef as
         else if is ''xref'' \<or> is ''extern'' \<or> is ''external'' then dir_xref as
         else if is ''end'' then dir_end as
         else if is ''align'' then dir_align as
         else if is ''ascii'' then dir_ascii as
         else if is ''asciz'' \<or> is ''asciiz'' then dir_asciz as
         else if is ''assume'' then dir_assume as
         else if is ''include'' then dir_include as
         else if is ''incbin'' then dir_incbin as
         else (-1, as))"

definition try_equ_directive :: "asm_state \<Rightarrow> string \<Rightarrow> int \<times> asm_state" where
  "try_equ_directive as label =
     (if str_casecmp_eq (cur_text as) ''equ'' \<or> str_casecmp_eq (cur_text as) ''.equ'' \<or>
         cur_type as = TOK_EQUALS
      then dir_equ as label else (-1, as))"


section \<open>Operands and the LD encoder (ez80asm.c, ez80instr.c)\<close>

subsection \<open>Registers, conditions, operand kinds\<close>

definition REG_NONE :: int where "REG_NONE = 0"
definition REG_A :: int where "REG_A = 1"
definition REG_B :: int where "REG_B = 2"
definition REG_C :: int where "REG_C = 3"
definition REG_D :: int where "REG_D = 4"
definition REG_E :: int where "REG_E = 5"
definition REG_H :: int where "REG_H = 6"
definition REG_L :: int where "REG_L = 7"
definition REG_IXH :: int where "REG_IXH = 8"
definition REG_IXL :: int where "REG_IXL = 9"
definition REG_IYH :: int where "REG_IYH = 10"
definition REG_IYL :: int where "REG_IYL = 11"
definition REG_I :: int where "REG_I = 12"
definition REG_R :: int where "REG_R = 13"
definition REG_MB :: int where "REG_MB = 14"
definition REG_AF :: int where "REG_AF = 15"
definition REG_BC :: int where "REG_BC = 16"
definition REG_DE :: int where "REG_DE = 17"
definition REG_HL :: int where "REG_HL = 18"
definition REG_SP :: int where "REG_SP = 19"
definition REG_IX :: int where "REG_IX = 20"
definition REG_IY :: int where "REG_IY = 21"
text \<open>\<^verbatim>\<open>REG_AF_\<close> of ez80asm.h, the alternate register pair.\<close>

definition REG_AF_ALT :: int where "REG_AF_ALT = 22"

definition REG_IND_BC :: int where "REG_IND_BC = 23"
definition REG_IND_DE :: int where "REG_IND_DE = 24"
definition REG_IND_HL :: int where "REG_IND_HL = 25"
definition REG_IND_SP :: int where "REG_IND_SP = 26"
definition REG_IND_IX :: int where "REG_IND_IX = 27"
definition REG_IND_IY :: int where "REG_IND_IY = 28"
definition REG_IND_C :: int where "REG_IND_C = 29"

lemmas reg_defs = REG_NONE_def REG_A_def REG_B_def REG_C_def REG_D_def REG_E_def REG_H_def
  REG_L_def REG_IXH_def REG_IXL_def REG_IYH_def REG_IYL_def REG_I_def REG_R_def REG_MB_def
  REG_AF_def REG_BC_def REG_DE_def REG_HL_def REG_SP_def REG_IX_def REG_IY_def REG_AF_ALT_def
  REG_IND_BC_def REG_IND_DE_def REG_IND_HL_def REG_IND_SP_def REG_IND_IX_def REG_IND_IY_def
  REG_IND_C_def

definition CC_NONE :: int where "CC_NONE = -1"
definition CC_NZ :: int where "CC_NZ = 0"
definition CC_Z :: int where "CC_Z = 1"
definition CC_NC :: int where "CC_NC = 2"
definition CC_C :: int where "CC_C = 3"
definition CC_PO :: int where "CC_PO = 4"
definition CC_PE :: int where "CC_PE = 5"
definition CC_P :: int where "CC_P = 6"
definition CC_M :: int where "CC_M = 7"

datatype op_type =
    OP_NONE | OP_REG | OP_IMM | OP_ADDR | OP_IND_REG | OP_IX_OFF | OP_IY_OFF | OP_COND
  | OP_BIT | OP_RST | OP_IM

record operand =
  op_kind :: op_type
  op_reg :: int
  op_cc :: int
  op_value :: int24
  op_symbol :: string
  op_has_symbol :: bool

text \<open>\<^verbatim>\<open>memset(op, 0, sizeof(*op)); op->type = OP_NONE; op->cc = CC_NONE;\<close>\<close>

definition operand_init :: operand where
  "operand_init = \<lparr>op_kind = OP_NONE, op_reg = 0, op_cc = CC_NONE, op_value = 0,
                    op_symbol = [], op_has_symbol = False\<rparr>"

text \<open>
  The two sorted name tables with their binary searches: a name is found when it is in
  the table. The name is folded to lower case into a buffer of 8 (registers) or 4
  (conditions) characters first.
\<close>

definition reg_table :: "(string \<times> int) list" where
  "reg_table =
     [(''a'', REG_A), (''af'', REG_AF), (''af'' @ [CHR 0x27], REG_AF_ALT), (''b'', REG_B),
      (''bc'', REG_BC), (''c'', REG_C), (''d'', REG_D), (''de'', REG_DE), (''e'', REG_E),
      (''h'', REG_H), (''hl'', REG_HL), (''i'', REG_I), (''ix'', REG_IX), (''ixh'', REG_IXH),
      (''ixl'', REG_IXL), (''iy'', REG_IY), (''iyh'', REG_IYH), (''iyl'', REG_IYL),
      (''l'', REG_L), (''mb'', REG_MB), (''r'', REG_R), (''sp'', REG_SP)]"

definition parse_register :: "string \<Rightarrow> int" where
  "parse_register name =
     (case map_of reg_table (str_tolower name 8) of Some code \<Rightarrow> code | None \<Rightarrow> REG_NONE)"

definition cc_table :: "(string \<times> int) list" where
  "cc_table =
     [(''c'', CC_C), (''m'', CC_M), (''nc'', CC_NC), (''nz'', CC_NZ), (''p'', CC_P),
      (''pe'', CC_PE), (''po'', CC_PO), (''z'', CC_Z)]"

definition parse_condition :: "string \<Rightarrow> int" where
  "parse_condition name =
     (case map_of cc_table (str_tolower name 4) of Some code \<Rightarrow> code | None \<Rightarrow> CC_NONE)"

subsection \<open>parse\_operand\<close>

text \<open>\<^verbatim>\<open>(HL)\<close>, \<^verbatim>\<open>(BC)\<close>, \<^verbatim>\<open>(DE)\<close>, \<^verbatim>\<open>(SP)\<close>, \<^verbatim>\<open>(C)\<close>: the register, then the closing parenthesis.\<close>

definition ind_reg_operand :: "asm_state \<Rightarrow> int \<Rightarrow> int \<times> operand \<times> asm_state" where
  "ind_reg_operand as ind =
     (let as1 = lexer_next as in
      if cur_type as1 \<noteq> TOK_RPAREN then (-1, operand_init, asm_error as1)
      else (0, operand_init\<lparr>op_kind := OP_IND_REG, op_reg := ind\<rparr>, lexer_next as1))"

text \<open>
  The displacement after \<^verbatim>\<open>IX\<close> or \<^verbatim>\<open>IY\<close>: with no sign the value stays 0; after
  \<^verbatim>\<open>+\<close> or \<^verbatim>\<open>-\<close> comes an expression, negated after \<^verbatim>\<open>-\<close>.
\<close>

definition index_offset :: "asm_state \<Rightarrow> operand \<Rightarrow> operand \<times> asm_state" where
  "index_offset as op =
     (if cur_type as = TOK_PLUS \<or> cur_type as = TOK_MINUS then
        (case parse_expression (lexer_next as) of (has_sym, v, sname, as1) \<Rightarrow>
           (op\<lparr>op_has_symbol := has_sym, op_symbol := sname,
               op_value := (if cur_type as = TOK_PLUS then v else - v)\<rparr>, as1))
      else (op, as))"

definition parse_operand :: "asm_state \<Rightarrow> int \<times> operand \<times> asm_state" where
  "parse_operand as =
     (if cur_type as = TOK_LPAREN then
        (let as1 = lexer_next as;
             reg = (if cur_type as1 = TOK_IDENT then parse_register (cur_text as1) else REG_NONE)
         in if cur_type as1 = TOK_IDENT \<and> reg = REG_HL then ind_reg_operand as1 REG_IND_HL
            else if cur_type as1 = TOK_IDENT \<and> reg = REG_BC then ind_reg_operand as1 REG_IND_BC
            else if cur_type as1 = TOK_IDENT \<and> reg = REG_DE then ind_reg_operand as1 REG_IND_DE
            else if cur_type as1 = TOK_IDENT \<and> reg = REG_SP then ind_reg_operand as1 REG_IND_SP
            else if cur_type as1 = TOK_IDENT \<and> reg = REG_C then ind_reg_operand as1 REG_IND_C
            else if cur_type as1 = TOK_IDENT \<and> (reg = REG_IX \<or> reg = REG_IY) then
              (let as2 = lexer_next as1 in
               if cur_type as2 = TOK_RPAREN
               then (0, operand_init\<lparr>op_kind := OP_IND_REG,
                                      op_reg := (if reg = REG_IX then REG_IND_IX else REG_IND_IY)\<rparr>,
                     lexer_next as2)
               else
                 (case index_offset as2
                         (operand_init\<lparr>op_kind := (if reg = REG_IX then OP_IX_OFF else OP_IY_OFF),
                                       op_value := 0\<rparr>) of
                    (op, as3) \<Rightarrow>
                      if cur_type as3 \<noteq> TOK_RPAREN then (-1, op, asm_error as3)
                      else (0, op, lexer_next as3)))
            else
              (case parse_expression as1 of (has_sym, v, sname, as2) \<Rightarrow>
                 (let op = operand_init\<lparr>op_kind := OP_ADDR, op_has_symbol := has_sym,
                                         op_value := v, op_symbol := sname\<rparr>
                  in if cur_type as2 \<noteq> TOK_RPAREN then (-1, op, asm_error as2)
                     else (0, op, lexer_next as2))))
      else
        (let reg = (if cur_type as = TOK_IDENT then parse_register (cur_text as) else REG_NONE);
             cc = (if cur_type as = TOK_IDENT then parse_condition (cur_text as) else CC_NONE)
         in if cur_type as = TOK_IDENT \<and> reg \<noteq> REG_NONE then
              (let as1 = lexer_next as in
               if (reg = REG_IX \<or> reg = REG_IY) \<and>
                  (cur_type as1 = TOK_PLUS \<or> cur_type as1 = TOK_MINUS)
               then (case index_offset as1
                            (operand_init\<lparr>op_kind := (if reg = REG_IX then OP_IX_OFF
                                                         else OP_IY_OFF),
                                          op_value := 0\<rparr>) of
                       (op, as2) \<Rightarrow> (0, op, as2))
               else if reg = REG_C
                 then (0, operand_init\<lparr>op_kind := OP_REG, op_reg := reg, op_cc := CC_C\<rparr>, as1)
               else (0, operand_init\<lparr>op_kind := OP_REG, op_reg := reg\<rparr>, as1))
            else if cur_type as = TOK_IDENT \<and> cc \<noteq> CC_NONE then
              (0, operand_init\<lparr>op_kind := OP_COND, op_cc := cc\<rparr>, lexer_next as)
            else
              (case parse_expression as of (has_sym, v, sname, as1) \<Rightarrow>
                 (0, operand_init\<lparr>op_kind := OP_IMM, op_has_symbol := has_sym, op_value := v,
                                   op_symbol := sname\<rparr>, as1))))"


subsection \<open>Encoding helpers\<close>

definition get_reg8_code :: "int \<Rightarrow> int" where
  "get_reg8_code reg =
     (if reg = REG_B then 0 else if reg = REG_C then 1 else if reg = REG_D then 2
      else if reg = REG_E then 3 else if reg = REG_H then 4 else if reg = REG_L then 5
      else if reg = REG_A then 7 else if reg = REG_IXH then 4 else if reg = REG_IXL then 5
      else if reg = REG_IYH then 4 else if reg = REG_IYL then 5 else -1)"

definition is_ix_half :: "int \<Rightarrow> bool" where
  "is_ix_half reg = (reg = REG_IXH \<or> reg = REG_IXL)"

definition is_iy_half :: "int \<Rightarrow> bool" where
  "is_iy_half reg = (reg = REG_IYH \<or> reg = REG_IYL)"

definition emit_index_prefix_if_needed :: "asm_state \<Rightarrow> int \<Rightarrow> int \<Rightarrow> int \<times> asm_state" where
  "emit_index_prefix_if_needed as reg1 reg2 =
     (if (is_ix_half reg1 \<and> is_iy_half reg2) \<or> (is_iy_half reg1 \<and> is_ix_half reg2)
        then (-1, as)
      else if is_ix_half reg1 \<or> is_ix_half reg2 then (1, emit_byte as 0xDD)
      else if is_iy_half reg1 \<or> is_iy_half reg2 then (1, emit_byte as 0xFD)
      else (0, as))"

definition get_reg16_dd_code :: "int \<Rightarrow> int" where
  "get_reg16_dd_code reg =
     (if reg = REG_BC then 0 else if reg = REG_DE then 1 else if reg = REG_HL then 2
      else if reg = REG_SP then 3 else -1)"

definition emit_idx_reg_prefix :: "asm_state \<Rightarrow> int \<Rightarrow> asm_state" where
  "emit_idx_reg_prefix as reg = emit_byte as (if reg = REG_IX then 0xDD else 0xFD)"

definition emit_idx_off_prefix :: "asm_state \<Rightarrow> op_type \<Rightarrow> asm_state" where
  "emit_idx_off_prefix as ty = emit_byte as (if ty = OP_IX_OFF then 0xDD else 0xFD)"

text \<open>The low byte of a value (\<^verbatim>\<open>value & 0xFF\<close>) and a small code as a byte.\<close>

definition low_byte :: "int24 \<Rightarrow> uint8" where
  "low_byte v = ucast (v AND 0xFF)"

definition code_byte :: "int \<Rightarrow> uint8" where
  "code_byte k = of_int k"

text \<open>A 24-bit operand field: the relocation record first when the operand carries a symbol.\<close>

definition emit_addr24 :: "asm_state \<Rightarrow> operand \<Rightarrow> asm_state" where
  "emit_addr24 as op =
     emit_long (if op_has_symbol op then emit_reloc as RELOC_ADDR24 (op_symbol op) else as)
       (op_value op AND 0xFFFFFF)"

subsection \<open>The LD tables\<close>

record ld_special_pair =
  sp_dest_reg :: int
  sp_src_reg :: int
  sp_prefix :: uint8
  sp_opcode :: uint8

definition ld_special_pairs :: "ld_special_pair list" where
  "ld_special_pairs =
     [\<lparr>sp_dest_reg = REG_SP, sp_src_reg = REG_HL, sp_prefix = 0x00, sp_opcode = 0xF9\<rparr>,
      \<lparr>sp_dest_reg = REG_SP, sp_src_reg = REG_IX, sp_prefix = 0xDD, sp_opcode = 0xF9\<rparr>,
      \<lparr>sp_dest_reg = REG_SP, sp_src_reg = REG_IY, sp_prefix = 0xFD, sp_opcode = 0xF9\<rparr>,
      \<lparr>sp_dest_reg = REG_I, sp_src_reg = REG_A, sp_prefix = 0xED, sp_opcode = 0x47\<rparr>,
      \<lparr>sp_dest_reg = REG_R, sp_src_reg = REG_A, sp_prefix = 0xED, sp_opcode = 0x4F\<rparr>,
      \<lparr>sp_dest_reg = REG_A, sp_src_reg = REG_I, sp_prefix = 0xED, sp_opcode = 0x57\<rparr>,
      \<lparr>sp_dest_reg = REG_A, sp_src_reg = REG_R, sp_prefix = 0xED, sp_opcode = 0x5F\<rparr>,
      \<lparr>sp_dest_reg = REG_A, sp_src_reg = REG_MB, sp_prefix = 0xED, sp_opcode = 0x6E\<rparr>,
      \<lparr>sp_dest_reg = REG_MB, sp_src_reg = REG_A, sp_prefix = 0xED, sp_opcode = 0x6D\<rparr>]"

record ld_rr16_entry =
  rr_reg :: int
  load_hl :: uint8
  store_hl :: uint8
  load_ix :: uint8
  store_ix :: uint8
  load_iy :: uint8
  store_iy :: uint8

definition ld_rr16_table :: "ld_rr16_entry list" where
  "ld_rr16_table =
     [\<lparr>rr_reg = REG_BC, load_hl = 0x07, store_hl = 0x0F, load_ix = 0x07, store_ix = 0x0F,
        load_iy = 0x07, store_iy = 0x0F\<rparr>,
      \<lparr>rr_reg = REG_DE, load_hl = 0x17, store_hl = 0x1F, load_ix = 0x17, store_ix = 0x1F,
        load_iy = 0x17, store_iy = 0x1F\<rparr>,
      \<lparr>rr_reg = REG_HL, load_hl = 0x27, store_hl = 0x2F, load_ix = 0x27, store_ix = 0x2F,
        load_iy = 0x27, store_iy = 0x2F\<rparr>,
      \<lparr>rr_reg = REG_IX, load_hl = 0x37, store_hl = 0x3F, load_ix = 0x37, store_ix = 0x3E,
        load_iy = 0x31, store_iy = 0x3D\<rparr>,
      \<lparr>rr_reg = REG_IY, load_hl = 0x31, store_hl = 0x3E, load_ix = 0x31, store_ix = 0x3D,
        load_iy = 0x37, store_iy = 0x3E\<rparr>]"

definition find_ld_rr16 :: "int \<Rightarrow> ld_rr16_entry option" where
  "find_ld_rr16 reg = find (\<lambda>e. rr_reg e = reg) ld_rr16_table"

subsection \<open>handle\_ld\<close>

text \<open>
  The decision tree of \<^verbatim>\<open>handle_ld\<close> after both operands are parsed. Each block of
  the C function is one definition: \<open>Some\<close> is a \<^verbatim>\<open>return\<close> inside the block, \<open>None\<close>
  falls through to the next block.
\<close>

type_synonym ld_block = "asm_state \<Rightarrow> operand \<Rightarrow> operand \<Rightarrow> (int \<times> asm_state) option"

definition ld_reg_reg :: ld_block where
  "ld_reg_reg as dest src =
     (if op_kind dest = OP_REG \<and> op_kind src = OP_REG then
        (let d = get_reg8_code (op_reg dest); s = get_reg8_code (op_reg src) in
         if d \<ge> 0 \<and> s \<ge> 0 then
           (case emit_index_prefix_if_needed as (op_reg dest) (op_reg src) of
              (prefix_result, as1) \<Rightarrow>
                if prefix_result < 0 then Some (-1, asm_error as1)
                else if prefix_result > 0 \<and>
                        (((is_ix_half (op_reg dest) \<or> is_iy_half (op_reg dest)) \<and>
                          (op_reg src = REG_H \<or> op_reg src = REG_L)) \<or>
                         ((is_ix_half (op_reg src) \<or> is_iy_half (op_reg src)) \<and>
                          (op_reg dest = REG_H \<or> op_reg dest = REG_L)))
                  then Some (-1, asm_error as1)
                else Some (0, emit_byte as1 (0x40 OR push_bit 3 (code_byte d) OR code_byte s)))
         else
           (case find (\<lambda>p. op_reg dest = sp_dest_reg p \<and> op_reg src = sp_src_reg p)
                   ld_special_pairs of
              Some p \<Rightarrow>
                Some (0, emit_byte (if sp_prefix p \<noteq> 0 then emit_byte as (sp_prefix p) else as)
                           (sp_opcode p))
            | None \<Rightarrow> None))
      else None)"

definition ld_reg_imm :: ld_block where
  "ld_reg_imm as dest src =
     (if op_kind dest = OP_REG \<and> op_kind src = OP_IMM then
        (let d = get_reg8_code (op_reg dest); dd = get_reg16_dd_code (op_reg dest) in
         if d \<ge> 0 then
           Some (0, emit_byte
                      (emit_byte (snd (emit_index_prefix_if_needed as (op_reg dest) REG_NONE))
                         (0x06 OR push_bit 3 (code_byte d)))
                      (low_byte (op_value src)))
         else if dd \<ge> 0 then
           Some (0, emit_addr24 (emit_byte as (0x01 OR push_bit 4 (code_byte dd))) src)
         else if op_reg dest = REG_IX \<or> op_reg dest = REG_IY then
           Some (0, emit_addr24 (emit_byte (emit_idx_reg_prefix as (op_reg dest)) 0x21) src)
         else None)
      else None)"

definition ld_reg_hl :: ld_block where
  "ld_reg_hl as dest src =
     (if op_kind dest = OP_REG \<and> op_kind src = OP_IND_REG \<and> op_reg src = REG_IND_HL then
        (case find_ld_rr16 (op_reg dest) of
           Some rr16 \<Rightarrow> Some (0, emit_byte (emit_byte as 0xED) (load_hl rr16))
         | None \<Rightarrow>
             (let d = get_reg8_code (op_reg dest) in
              if d \<ge> 0 then Some (0, emit_byte as (0x46 OR push_bit 3 (code_byte d)))
              else None))
      else None)"

definition ld_hl_reg :: ld_block where
  "ld_hl_reg as dest src =
     (if op_kind dest = OP_IND_REG \<and> op_reg dest = REG_IND_HL \<and> op_kind src = OP_REG then
        (case find_ld_rr16 (op_reg src) of
           Some rr16 \<Rightarrow> Some (0, emit_byte (emit_byte as 0xED) (store_hl rr16))
         | None \<Rightarrow>
             (let s = get_reg8_code (op_reg src) in
              if s \<ge> 0 then Some (0, emit_byte as (0x70 OR code_byte s))
              else None))
      else None)"

definition ld_hl_imm :: ld_block where
  "ld_hl_imm as dest src =
     (if op_kind dest = OP_IND_REG \<and> op_reg dest = REG_IND_HL \<and> op_kind src = OP_IMM
      then Some (0, emit_byte (emit_byte as 0x36) (low_byte (op_value src)))
      else None)"

definition ld_reg_idx :: ld_block where
  "ld_reg_idx as dest src =
     (if op_kind dest = OP_REG \<and> (op_kind src = OP_IX_OFF \<or> op_kind src = OP_IY_OFF) then
        (let d = get_reg8_code (op_reg dest) in
         if d \<ge> 0 then
           Some (0, emit_byte
                      (emit_byte (emit_idx_off_prefix as (op_kind src))
                         (0x46 OR push_bit 3 (code_byte d)))
                      (low_byte (op_value src)))
         else
           (case find_ld_rr16 (op_reg dest) of
              Some rr16 \<Rightarrow>
                Some (0, emit_byte
                           (emit_byte (emit_idx_off_prefix as (op_kind src))
                              (if op_kind src = OP_IX_OFF then load_ix rr16 else load_iy rr16))
                           (low_byte (op_value src)))
            | None \<Rightarrow> None))
      else None)"

definition ld_idx_reg :: ld_block where
  "ld_idx_reg as dest src =
     (if (op_kind dest = OP_IX_OFF \<or> op_kind dest = OP_IY_OFF) \<and> op_kind src = OP_REG then
        (let s = get_reg8_code (op_reg src) in
         if s \<ge> 0 then
           Some (0, emit_byte
                      (emit_byte (emit_idx_off_prefix as (op_kind dest)) (0x70 OR code_byte s))
                      (low_byte (op_value dest)))
         else
           (case find_ld_rr16 (op_reg src) of
              Some rr16 \<Rightarrow>
                Some (0, emit_byte
                           (emit_byte (emit_idx_off_prefix as (op_kind dest))
                              (if op_kind dest = OP_IX_OFF then store_ix rr16 else store_iy rr16))
                           (low_byte (op_value dest)))
            | None \<Rightarrow> None))
      else None)"

definition ld_idx_imm :: ld_block where
  "ld_idx_imm as dest src =
     (if (op_kind dest = OP_IX_OFF \<or> op_kind dest = OP_IY_OFF) \<and> op_kind src = OP_IMM
      then Some (0, emit_byte
                      (emit_byte (emit_byte (emit_idx_off_prefix as (op_kind dest)) 0x36)
                         (low_byte (op_value dest)))
                      (low_byte (op_value src)))
      else None)"

definition ld_a_ind :: ld_block where
  "ld_a_ind as dest src =
     (if op_kind dest = OP_REG \<and> op_reg dest = REG_A \<and> op_kind src = OP_IND_REG then
        (if op_reg src = REG_IND_BC then Some (0, emit_byte as 0x0A)
         else if op_reg src = REG_IND_DE then Some (0, emit_byte as 0x1A)
         else None)
      else None)"

definition ld_ind_a :: ld_block where
  "ld_ind_a as dest src =
     (if op_kind dest = OP_IND_REG \<and> op_kind src = OP_REG \<and> op_reg src = REG_A then
        (if op_reg dest = REG_IND_BC then Some (0, emit_byte as 0x02)
         else if op_reg dest = REG_IND_DE then Some (0, emit_byte as 0x12)
         else None)
      else None)"

definition ld_a_addr :: ld_block where
  "ld_a_addr as dest src =
     (if op_kind dest = OP_REG \<and> op_reg dest = REG_A \<and> op_kind src = OP_ADDR
      then Some (0, emit_addr24 (emit_byte as 0x3A) src) else None)"

definition ld_addr_a :: ld_block where
  "ld_addr_a as dest src =
     (if op_kind dest = OP_ADDR \<and> op_kind src = OP_REG \<and> op_reg src = REG_A
      then Some (0, emit_addr24 (emit_byte as 0x32) dest) else None)"

definition ld_hl_addr :: ld_block where
  "ld_hl_addr as dest src =
     (if op_kind dest = OP_REG \<and> op_reg dest = REG_HL \<and> op_kind src = OP_ADDR
      then Some (0, emit_addr24 (emit_byte as 0x2A) src) else None)"

definition ld_addr_hl :: ld_block where
  "ld_addr_hl as dest src =
     (if op_kind dest = OP_ADDR \<and> op_kind src = OP_REG \<and> op_reg src = REG_HL
      then Some (0, emit_addr24 (emit_byte as 0x22) dest) else None)"

definition ld_reg_addr :: ld_block where
  "ld_reg_addr as dest src =
     (if op_kind dest = OP_REG \<and> op_kind src = OP_ADDR then
        (let dd = get_reg16_dd_code (op_reg dest) in
         if dd \<ge> 0 then
           Some (0, emit_addr24
                      (emit_byte (emit_byte as 0xED) (0x4B OR push_bit 4 (code_byte dd))) src)
         else if op_reg dest = REG_IX \<or> op_reg dest = REG_IY then
           Some (0, emit_addr24 (emit_byte (emit_idx_reg_prefix as (op_reg dest)) 0x2A) src)
         else None)
      else None)"

definition ld_addr_reg :: ld_block where
  "ld_addr_reg as dest src =
     (if op_kind dest = OP_ADDR \<and> op_kind src = OP_REG then
        (let dd = get_reg16_dd_code (op_reg src) in
         if dd \<ge> 0 then
           Some (0, emit_addr24
                      (emit_byte (emit_byte as 0xED) (0x43 OR push_bit 4 (code_byte dd))) dest)
         else if op_reg src = REG_IX \<or> op_reg src = REG_IY then
           Some (0, emit_addr24 (emit_byte (emit_idx_reg_prefix as (op_reg src)) 0x22) dest)
         else None)
      else None)"

text \<open>The blocks in the order of the C function.\<close>

definition ld_blocks :: "ld_block list" where
  "ld_blocks =
     [ld_reg_reg, ld_reg_imm, ld_reg_hl, ld_hl_reg, ld_hl_imm, ld_reg_idx, ld_idx_reg,
      ld_idx_imm, ld_a_ind, ld_ind_a, ld_a_addr, ld_addr_a, ld_hl_addr, ld_addr_hl,
      ld_reg_addr, ld_addr_reg]"

primrec first_return ::
  "ld_block list \<Rightarrow> asm_state \<Rightarrow> operand \<Rightarrow> operand \<Rightarrow> (int \<times> asm_state) option" where
  "first_return [] as dest src = None"
| "first_return (b # bs) as dest src =
     (case b as dest src of Some r \<Rightarrow> Some r | None \<Rightarrow> first_return bs as dest src)"

definition ld_encode :: "asm_state \<Rightarrow> operand \<Rightarrow> operand \<Rightarrow> int \<times> asm_state" where
  "ld_encode as dest src =
     (case first_return ld_blocks as dest src of
        Some r \<Rightarrow> r
      | None \<Rightarrow> (-1, asm_error as))"

definition handle_ld :: "asm_state \<Rightarrow> int \<times> asm_state" where
  "handle_ld as =
     (case parse_operand (lexer_next as) of (rc1, dest, as1) \<Rightarrow>
        if rc1 < 0 then (-1, as1)
        else if cur_type as1 \<noteq> TOK_COMMA then (-1, asm_error as1)
        else (case parse_operand (lexer_next as1) of (rc2, src, as2) \<Rightarrow>
                if rc2 < 0 then (-1, as2) else ld_encode as2 dest src))"


subsection \<open>The register-pair rows of the LD table, as documented\<close>

text \<open>
  The six opcode bytes documented for each 24-bit register pair, in the order load via (HL),
  store via (HL), load via (IX+d), store via (IX+d), load via (IY+d), store via (IY+d). This
  is the documented table, written independently of \<open>ld_rr16_table\<close>.
\<close>

definition spec_ld_row :: "int \<Rightarrow> uint8 list" where
  "spec_ld_row reg =
     (if reg = REG_BC then [0x07, 0x0F, 0x07, 0x0F, 0x07, 0x0F]
      else if reg = REG_DE then [0x17, 0x1F, 0x17, 0x1F, 0x17, 0x1F]
      else if reg = REG_HL then [0x27, 0x2F, 0x27, 0x2F, 0x27, 0x2F]
      else if reg = REG_IX then [0x37, 0x3F, 0x37, 0x3E, 0x31, 0x3D]
      else if reg = REG_IY then [0x31, 0x3E, 0x31, 0x3D, 0x37, 0x3E]
      else [])"

subsection \<open>Example states\<close>

text \<open>
  The state set up by \<^verbatim>\<open>asm_init\<close>, the same with pass 2 selected and empty temporary
  files open, a line handed to the lexer with its first token read, and the state at the end
  of a line.
\<close>

definition asm_init :: asm_state where
  "asm_init = \<lparr>pass = 1, errors = 0, warnings = 0, line_ptr = [],
     current_token = mk_token TOK_ERROR [] 0,
     code_tmp = None, data_tmp = None, reloc_tmp = None,
     code_size = 0, data_size = 0, bss_size = 0, num_relocs = 0,
     current_section = SECT_CODE, pc = 0, code_pc = 0, data_pc = 0, bss_pc = 0,
     symbols = [], externs = [], local_scope = 0\<rparr>"

definition pass2_init :: asm_state where
  "pass2_init = asm_init\<lparr>pass := 2, code_tmp := Some [], data_tmp := Some [], reloc_tmp := Some []\<rparr>"

definition reg_operand :: "int \<Rightarrow> operand" where
  "reg_operand reg = operand_init\<lparr>op_kind := OP_REG, op_reg := reg\<rparr>"

definition ind_hl_operand :: operand where
  "ind_hl_operand = operand_init\<lparr>op_kind := OP_IND_REG, op_reg := REG_IND_HL\<rparr>"

definition idx_operand :: "op_type \<Rightarrow> int24 \<Rightarrow> operand" where
  "idx_operand k d = operand_init\<lparr>op_kind := k, op_value := d\<rparr>"

definition asm_text :: "string \<Rightarrow> asm_state" where
  "asm_text line = lexer_next (lexer_init pass2_init line)"

definition at_eol :: asm_state where
  "at_eol = pass2_init\<lparr>current_token := mk_token TOK_EOL [] 0\<rparr>"


text \<open>The state after the first operand of a two-operand line, at the comma.\<close>

definition after_dest :: "string \<Rightarrow> asm_state" where
  "after_dest rest = pass2_init\<lparr>line_ptr := rest, current_token := mk_token TOK_COMMA '','' 0\<rparr>"


subsection \<open>Evaluation of the lexer and the parser on concrete lines\<close>

lemma lex_while_step:
  "lex_while P k [] = ([], [])"
  "0 < k \<Longrightarrow> lex_while P k (c # cs) =
     (if P c then (let (t, r) = lex_while P (k - 1) cs in (c # t, r)) else ([], c # cs))"
  by (cases k; simp)+

lemma lex_digits_step:
  "lex_digits base k [] = ([], [])"
  "0 < k \<Longrightarrow> lex_digits base k (c # cs) =
     (if (base = 16 \<and> c_isxdigit c) \<or> (base = 10 \<and> c_isdigit c)
      then (let (t, r) = lex_digits base (k - 1) cs in (c # t, r))
      else if c = CHR ''h'' \<or> c = CHR ''H'' then ([], cs)
      else ([], c # cs))"
  by (cases k; simp)+

lemma lex_string_step:
  "lex_string k [] = ([], [])"
  "0 < k \<Longrightarrow> lex_string k (c # cs) =
     (if c = CHR 0x22 then ([], c # cs)
      else if c = CHR 0x5C \<and> cs \<noteq> []
        then (let (t, r) = lex_string (k - 1) (tl cs) in (string_escape (hd cs) # t, r))
      else (let (t, r) = lex_string (k - 1) cs in (c # t, r)))"
  by (cases k; simp)+

lemmas lex_defs = lex_def skip_whitespace_def single_char_token_def lex_number_def lex_ident_def
  label_or_ident_def lex_string_literal_def lex_char_literal_def skip_char_def mk_token_def
  c_isdigit_def c_isxdigit_def c_isalpha_def c_isalnum_def is_ident_start_def is_ident_char_def
  MAX_LABEL_LEN_def MAX_STRING_LEN_def strtoul_def ULONG_MAX_def digit_value_def
  string_escape_def char_escape_def lex_while_step lex_digits_step lex_string_step

lemma lex_ex1: "lex ''ld ix,(iy+5)'' = (mk_token TOK_IDENT ''ld'' 0, ''ix,(iy+5)'', 0)"
  by (simp add: lex_defs)

lemma lex_ex2: "lex ''5)'' = (mk_token TOK_NUMBER ''5'' 5, '')'', 0)"
  by (simp add: lex_defs)

lemma parse_run_step: "0 < n \<Longrightarrow> parse_run n c = parse_step (parse_run (n - 1)) c"
  by (cases n; simp)

lemmas parse_defs = parse_expression_def parse_expr_add_def tokens_left_def parse_run_step parse_step_def
  primary_ident_def add_combine_def mul_combine_def lexer_next_def lexer_init_def asm_error_def
  str_copy_def c_string_def

lemmas operand_defs = parse_operand_def ind_reg_operand_def index_offset_def operand_init_def
  parse_register_def parse_condition_def reg_table_def cc_table_def str_tolower_def c_tolower_def
  reg_defs CC_NONE_def CC_C_def




section \<open>Linker layout (resolve\_symbols)\<close>

lemma sym_hash_names:
  "sym_hash ''__low_code'' = 67" "sym_hash ''__len_code'' = 112" "sym_hash ''__low_data'' = 190"
  "sym_hash ''__len_data'' = 13" "sym_hash ''__low_bss'' = 172" "sym_hash ''__len_bss'' = 63"
  by (simp_all add: sym_hash_def ld_lower_def)

lemma find_newest_append:
  "find_newest P (xs @ [s]) = (if P s then Some (length xs) else find_newest P xs)"
  by (induction xs) (auto split: option.splits)

lemma find_global_append:
  "find_global (ls\<lparr>ls_symbols := ls_symbols ls @ [s]\<rparr>) n =
     (if g_bucket s = sym_hash n \<and> ld_str_casecmp (g_name s) n = 0
      then Some (length (ls_symbols ls)) else find_global ls n)"
  by (simp add: find_global_def find_newest_append)

lemma add_global_fresh:
  "find_global ls n = None \<Longrightarrow> length (ls_symbols ls) < LD_MAX_SYMBOLS \<Longrightarrow>
   snd (add_global ls n v sect oi) = ls\<lparr>ls_symbols := ls_symbols ls @
      [\<lparr>g_name = str_copy n 64, g_value = v, g_section = sect,
        g_obj_index = oi, g_bucket = sym_hash n\<rparr>]\<rparr>"
  by (simp add: add_global_def)

lemma assign_code_bases_length: "length (fst (assign_code_bases a objs)) = length objs"
  by (induction objs arbitrary: a) (simp_all add: case_prod_beta)

lemma assign_code_bases_addr:
  "snd (assign_code_bases a objs) = a + sum_list (map o_code_size objs)"
  by (induction objs arbitrary: a) (simp_all add: case_prod_beta add.assoc)

lemma assign_code_bases_nth:
  "i < length objs \<Longrightarrow> fst (assign_code_bases a objs) ! i =
     (objs ! i)\<lparr>o_code_base := a + sum_list (map o_code_size (take i objs))\<rparr>"
proof (induction objs arbitrary: a i)
  case Nil
  then show ?case by simp
next
  case (Cons ob obs)
  show ?case
  proof (cases i)
    case 0
    then show ?thesis by (simp add: case_prod_beta)
  next
    case (Suc j)
    with Cons.prems have "j < length obs" by simp
    from Cons.IH[OF this, of "a + o_code_size ob"] Suc show ?thesis
      by (simp add: case_prod_beta add.assoc)
  qed
qed

lemma assign_data_bases_length: "length (fst (assign_data_bases a objs)) = length objs"
  by (induction objs arbitrary: a) (simp_all add: case_prod_beta)

lemma assign_data_bases_addr:
  "snd (assign_data_bases a objs) = a + sum_list (map o_data_size objs)"
  by (induction objs arbitrary: a) (simp_all add: case_prod_beta add.assoc)

lemma assign_data_bases_nth:
  "i < length objs \<Longrightarrow> fst (assign_data_bases a objs) ! i =
     (objs ! i)\<lparr>o_data_base := a + sum_list (map o_data_size (take i objs))\<rparr>"
proof (induction objs arbitrary: a i)
  case Nil
  then show ?case by simp
next
  case (Cons ob obs)
  show ?case
  proof (cases i)
    case 0
    then show ?thesis by (simp add: case_prod_beta)
  next
    case (Suc j)
    with Cons.prems have "j < length obs" by simp
    from Cons.IH[OF this, of "a + o_data_size ob"] Suc show ?thesis
      by (simp add: case_prod_beta add.assoc)
  qed
qed

lemma assign_bss_bases_length: "length (fst (assign_bss_bases a objs)) = length objs"
  by (induction objs arbitrary: a) (simp_all add: case_prod_beta)

lemma assign_bss_bases_addr:
  "snd (assign_bss_bases a objs) = a + sum_list (map o_bss_size objs)"
  by (induction objs arbitrary: a) (simp_all add: case_prod_beta add.assoc)

lemma assign_bss_bases_nth:
  "i < length objs \<Longrightarrow> fst (assign_bss_bases a objs) ! i =
     (objs ! i)\<lparr>o_bss_base := a + sum_list (map o_bss_size (take i objs))\<rparr>"
proof (induction objs arbitrary: a i)
  case Nil
  then show ?case by simp
next
  case (Cons ob obs)
  show ?case
  proof (cases i)
    case 0
    then show ?thesis by (simp add: case_prod_beta)
  next
    case (Suc j)
    with Cons.prems have "j < length obs" by simp
    from Cons.IH[OF this, of "a + o_bss_size ob"] Suc show ?thesis
      by (simp add: case_prod_beta add.assoc)
  qed
qed

lemma assign_code_bases_sizes:
  "map o_data_size (fst (assign_code_bases a objs)) = map o_data_size objs"
  "map o_bss_size (fst (assign_code_bases a objs)) = map o_bss_size objs"
  by (induction objs arbitrary: a) (simp_all add: case_prod_beta)

lemma assign_data_bases_sizes:
  "map o_bss_size (fst (assign_data_bases a objs)) = map o_bss_size objs"
  by (induction objs arbitrary: a) (simp_all add: case_prod_beta)

lemma assign_sizes_take:
  "map o_data_size (take i (fst (assign_code_bases a objs))) = map o_data_size (take i objs)"
  "map o_bss_size (take i (fst (assign_code_bases a objs))) = map o_bss_size (take i objs)"
  "map o_bss_size (take i (fst (assign_data_bases a objs))) = map o_bss_size (take i objs)"
  by (simp_all add: take_map[symmetric] assign_code_bases_sizes assign_data_bases_sizes)

lemma layout_sections_fields:
  "ls_total_code (layout_sections ls) = sum_list (map o_code_size (ls_objects ls))"
  "ls_total_data (layout_sections ls) = sum_list (map o_data_size (ls_objects ls))"
  "ls_total_bss (layout_sections ls) = sum_list (map o_bss_size (ls_objects ls))"
  "ls_base_addr (layout_sections ls) = ls_base_addr ls"
  "ls_symbols (layout_sections ls) = ls_symbols ls"
  "ls_errors (layout_sections ls) = ls_errors ls"
  "length (ls_objects (layout_sections ls)) = length (ls_objects ls)"
  by (simp_all add: layout_sections_def case_prod_beta assign_code_bases_addr
        assign_data_bases_addr assign_bss_bases_addr assign_code_bases_sizes
        assign_data_bases_sizes assign_code_bases_length assign_data_bases_length
        assign_bss_bases_length)

lemma layout_sections_nth:
  assumes "i < length (ls_objects ls)"
  shows "ls_objects (layout_sections ls) ! i = (ls_objects ls ! i)
     \<lparr>o_code_base := ls_base_addr ls + sum_list (map o_code_size (take i (ls_objects ls))),
      o_data_base := ls_base_addr ls + sum_list (map o_code_size (ls_objects ls))
                       + sum_list (map o_data_size (take i (ls_objects ls))),
      o_bss_base := ls_base_addr ls + sum_list (map o_code_size (ls_objects ls))
                       + sum_list (map o_data_size (ls_objects ls))
                       + sum_list (map o_bss_size (take i (ls_objects ls)))\<rparr>"
proof -
  let ?o1 = "fst (assign_code_bases (ls_base_addr ls) (ls_objects ls))"
  let ?c = "snd (assign_code_bases (ls_base_addr ls) (ls_objects ls))"
  let ?o2 = "fst (assign_data_bases ?c ?o1)"
  let ?d = "snd (assign_data_bases ?c ?o1)"
  have l1: "i < length ?o1" using assms by (simp add: assign_code_bases_length)
  have l2: "i < length ?o2" using l1 by (simp add: assign_data_bases_length)
  show ?thesis
    using assms l1 l2
    by (simp add: layout_sections_def case_prod_beta assign_bss_bases_nth
        assign_data_bases_nth assign_code_bases_nth assign_sizes_take assign_code_bases_addr
        assign_data_bases_addr assign_code_bases_sizes)
qed


lemma find_newest_append2:
  "find_newest P (xs @ ys) =
     (case find_newest P ys of Some i \<Rightarrow> Some (length xs + i) | None \<Rightarrow> find_newest P xs)"
  by (induction xs) (auto split: option.splits)

lemma find_global_symbols_append:
  "find_global (ls\<lparr>ls_symbols := ls_symbols ls @ ys\<rparr>) n =
     (case find_newest (\<lambda>s. g_bucket s = sym_hash n \<and> ld_str_casecmp (g_name s) n = 0) ys of
        Some i \<Rightarrow> Some (length (ls_symbols ls) + i)
      | None \<Rightarrow> find_global ls n)"
  by (simp add: find_global_def find_newest_append2 split: option.splits)

lemma find_newest_map: "find_newest P (map f xs) = find_newest (\<lambda>x. P (f x)) xs"
  by (induction xs) (auto split: option.splits)

lemma make_absolute_keeps:
  "g_name (make_absolute objs s) = g_name s"
  "g_section (make_absolute objs s) = g_section s"
  "g_obj_index (make_absolute objs s) = g_obj_index s"
  "g_bucket (make_absolute objs s) = g_bucket s"
  by (simp_all add: make_absolute_def)

lemma find_global_absolute:
  "find_global (absolute_symbols (layout_sections ls)) n = find_global ls n"
  by (simp add: find_global_def absolute_symbols_def find_newest_map make_absolute_keeps
        layout_sections_fields)

lemma absolute_symbols_fields:
  "ls_objects (absolute_symbols ls) = ls_objects ls"
  "ls_base_addr (absolute_symbols ls) = ls_base_addr ls"
  "ls_total_code (absolute_symbols ls) = ls_total_code ls"
  "ls_total_data (absolute_symbols ls) = ls_total_data ls"
  "ls_total_bss (absolute_symbols ls) = ls_total_bss ls"
  "ls_errors (absolute_symbols ls) = ls_errors ls"
  "length (ls_symbols (absolute_symbols ls)) = length (ls_symbols ls)"
  by (simp_all add: absolute_symbols_def)

subsection \<open>The six linker-defined symbols\<close>

lemma add_global_fields:
  "ls_objects (snd (add_global ls n v s oi)) = ls_objects ls"
  "ls_base_addr (snd (add_global ls n v s oi)) = ls_base_addr ls"
  "ls_total_code (snd (add_global ls n v s oi)) = ls_total_code ls"
  "ls_total_data (snd (add_global ls n v s oi)) = ls_total_data ls"
  "ls_total_bss (snd (add_global ls n v s oi)) = ls_total_bss ls"
  "ls_libraries (snd (add_global ls n v s oi)) = ls_libraries ls"
  by (simp_all add: add_global_def split: option.splits)

lemma add_globals_fields:
  "ls_objects (foldl (\<lambda>l (n, v). snd (add_global l n v s oi)) ls ps) = ls_objects ls"
  "ls_base_addr (foldl (\<lambda>l (n, v). snd (add_global l n v s oi)) ls ps) = ls_base_addr ls"
  "ls_total_code (foldl (\<lambda>l (n, v). snd (add_global l n v s oi)) ls ps) = ls_total_code ls"
  "ls_total_data (foldl (\<lambda>l (n, v). snd (add_global l n v s oi)) ls ps) = ls_total_data ls"
  "ls_total_bss (foldl (\<lambda>l (n, v). snd (add_global l n v s oi)) ls ps) = ls_total_bss ls"
  "ls_libraries (foldl (\<lambda>l (n, v). snd (add_global l n v s oi)) ls ps) = ls_libraries ls"
  by (induction ps arbitrary: ls; simp add: add_global_fields case_prod_beta)+

lemma inject_linker_symbols_fold:
  "inject_linker_symbols ls =
     foldl (\<lambda>l (n, v). snd (add_global l n v 0 LINKER_DEFINED)) ls (linker_values ls)"
  by (simp add: inject_linker_symbols_def linker_values_def Let_def add_global_fields)

lemma add_globals_prefix:
  "\<exists>ys. ls_symbols (foldl (\<lambda>l (n, v). snd (add_global l n v s oi)) ls ps) = ls_symbols ls @ ys"
proof (induction ps arbitrary: ls)
  case Nil
  then show ?case by simp
next
  case (Cons p ps)
  obtain n v where p: "p = (n, v)" by (cases p)
  have "\<exists>zs. ls_symbols (snd (add_global ls n v s oi)) = ls_symbols ls @ zs"
    by (simp add: add_global_def split: option.splits)
  then obtain zs where z: "ls_symbols (snd (add_global ls n v s oi)) = ls_symbols ls @ zs" ..
  from Cons.IH[of "snd (add_global ls n v s oi)"] z p show ?case by auto
qed

lemma add_globals_result:
  assumes "distinct (map (\<lambda>p. sym_hash (fst p)) ps)"
    and "length (ls_symbols ls) + length ps \<le> LD_MAX_SYMBOLS"
  shows "ls_symbols (foldl (\<lambda>l (n, v). snd (add_global l n v s oi)) ls ps) =
           ls_symbols ls @
           map (\<lambda>(n, v). \<lparr>g_name = str_copy n 64, g_value = v, g_section = s,
                         g_obj_index = oi, g_bucket = sym_hash n\<rparr>)
             (filter (\<lambda>(n, v). find_global ls n = None) ps)
       \<and> ls_errors (foldl (\<lambda>l (n, v). snd (add_global l n v s oi)) ls ps) =
           ls_errors ls + int (length (filter (\<lambda>(n, v). find_global ls n \<noteq> None) ps))"
  using assms
proof (induction ps arbitrary: ls)
  case Nil
  then show ?case by simp
next
  case (Cons p ps)
  obtain n v where p: "p = (n, v)" by (cases p)
  let ?l1 = "snd (add_global ls n v s oi)"
  have d: "distinct (map (\<lambda>p. sym_hash (fst p)) ps)"
    and nh: "\<forall>q \<in> set ps. sym_hash (fst q) \<noteq> sym_hash n"
    using Cons.prems(1) p by (auto simp: image_iff)
  show ?case
  proof (cases "find_global ls n")
    case (Some i)
    then have l1: "?l1 = ls\<lparr>ls_errors := ls_errors ls + 1\<rparr>" by (simp add: add_global_def)
    have fg: "find_global ?l1 = find_global ls" by (simp add: l1 find_global_def fun_eq_iff)
    have room: "length (ls_symbols ?l1) + length ps \<le> LD_MAX_SYMBOLS"
      using Cons.prems(2) by (simp add: l1)
    note ih = Cons.IH[OF d room, unfolded fg]
    have sy: "ls_symbols ?l1 = ls_symbols ls" and er: "ls_errors ?l1 = ls_errors ls + 1"
      by (simp_all add: l1)
    from ih show ?thesis
      unfolding p sy er using Some by simp
  next
    case None
    let ?g = "\<lparr>g_name = str_copy n 64, g_value = v, g_section = s,
                 g_obj_index = oi, g_bucket = sym_hash n\<rparr>"
    have l1: "?l1 = ls\<lparr>ls_symbols := ls_symbols ls @ [?g]\<rparr>"
      using None Cons.prems(2) by (simp add: add_global_def)
    have fg: "\<forall>q \<in> set ps. find_global ?l1 (fst q) = find_global ls (fst q)"
      using nh by (auto simp: l1 find_global_append)
    have flt: "filter (\<lambda>(n, v). find_global ?l1 n = None) ps
                 = filter (\<lambda>(n, v). find_global ls n = None) ps"
      "filter (\<lambda>(n, v). find_global ?l1 n \<noteq> None) ps
                 = filter (\<lambda>(n, v). find_global ls n \<noteq> None) ps"
      by (rule filter_cong[OF refl], use fg in \<open>simp add: case_prod_beta\<close>)+
    have room: "length (ls_symbols ?l1) + length ps \<le> LD_MAX_SYMBOLS"
      using Cons.prems(2) by (simp add: l1)
    note ih = Cons.IH[OF d room, unfolded flt]
    have sy: "ls_symbols ?l1 = ls_symbols ls @ [?g]" and er: "ls_errors ?l1 = ls_errors ls"
      by (simp_all add: l1)
    from ih show ?thesis
      unfolding p sy er using None by simp
  qed
qed

lemma linker_values_hashes:
  "distinct (map (\<lambda>p. sym_hash (fst p)) (linker_values ls))"
  by (simp add: linker_values_def sym_hash_names)

lemma linker_values_short:
  "p \<in> set (linker_values ls) \<Longrightarrow> str_copy (fst p) 64 = fst p"
  by (auto simp: linker_values_def str_copy_def)

lemma resolve_symbols_frame:
  "ls_objects (resolve_symbols ls) = ls_objects (layout_sections ls)"
  "ls_base_addr (resolve_symbols ls) = ls_base_addr ls"
  "ls_total_code (resolve_symbols ls) = ls_total_code (layout_sections ls)"
  "ls_total_data (resolve_symbols ls) = ls_total_data (layout_sections ls)"
  "ls_total_bss (resolve_symbols ls) = ls_total_bss (layout_sections ls)"
  by (simp_all add: resolve_symbols_def inject_linker_symbols_fold add_globals_fields
      absolute_symbols_fields layout_sections_fields)

lemma linker_values_resolved:
  "linker_values (resolve_symbols ls) = linker_values (absolute_symbols (layout_sections ls))"
  by (simp add: linker_values_def resolve_symbols_frame absolute_symbols_fields
      layout_sections_fields)

lemma resolve_symbols_relocated:
  "take (length (ls_symbols ls)) (ls_symbols (resolve_symbols ls)) =
     map (make_absolute (ls_objects (layout_sections ls))) (ls_symbols ls)"
proof -
  let ?m = "absolute_symbols (layout_sections ls)"
  from add_globals_prefix[of 0 LINKER_DEFINED ?m "linker_values ?m"]
  obtain ys where "ls_symbols (resolve_symbols ls) = ls_symbols ?m @ ys"
    by (auto simp: resolve_symbols_def inject_linker_symbols_fold)
  then show ?thesis
    by (simp add: absolute_symbols_def layout_sections_fields)
qed

lemma resolve_symbols_injected:
  assumes room: "length (ls_symbols ls) + 6 \<le> LD_MAX_SYMBOLS"
  shows "drop (length (ls_symbols ls)) (ls_symbols (resolve_symbols ls)) =
           map (\<lambda>(n, v). linker_symbol n v)
             (filter (\<lambda>(n, v). find_global ls n = None) (linker_values (resolve_symbols ls)))"
    and "ls_errors (resolve_symbols ls) = ls_errors ls +
           int (length (filter (\<lambda>(n, v). find_global ls n \<noteq> None)
                  (linker_values (resolve_symbols ls))))"
proof -
  let ?m = "absolute_symbols (layout_sections ls)"
  have r: "length (ls_symbols ?m) + length (linker_values ?m) \<le> LD_MAX_SYMBOLS"
    using room by (simp add: absolute_symbols_fields layout_sections_fields linker_values_def)
  note res = add_globals_result[OF linker_values_hashes[of ?m] r, of 0 LINKER_DEFINED,
      folded inject_linker_symbols_fold, folded resolve_symbols_def,
      unfolded find_global_absolute, folded linker_values_resolved]
  have mp: "map (\<lambda>(n, v). \<lparr>g_name = str_copy n 64, g_value = v, g_section = 0,
                         g_obj_index = LINKER_DEFINED, g_bucket = sym_hash n\<rparr>)
             (filter (\<lambda>(n, v). find_global ls n = None) (linker_values (resolve_symbols ls)))
          = map (\<lambda>(n, v). linker_symbol n v)
             (filter (\<lambda>(n, v). find_global ls n = None) (linker_values (resolve_symbols ls)))"
    by (rule map_cong[OF refl])
       (use linker_values_short[of _ "resolve_symbols ls"] in
         \<open>auto simp: linker_symbol_def case_prod_beta\<close>)
  have len: "length (ls_symbols ?m) = length (ls_symbols ls)"
    by (simp add: absolute_symbols_fields layout_sections_fields)
  from res mp len
  show "drop (length (ls_symbols ls)) (ls_symbols (resolve_symbols ls)) =
           map (\<lambda>(n, v). linker_symbol n v)
             (filter (\<lambda>(n, v). find_global ls n = None) (linker_values (resolve_symbols ls)))"
    by simp
  from res show "ls_errors (resolve_symbols ls) = ls_errors ls +
           int (length (filter (\<lambda>(n, v). find_global ls n \<noteq> None)
                  (linker_values (resolve_symbols ls))))"
    by (simp add: absolute_symbols_fields layout_sections_fields)
qed

lemma find_newest_None: "(find_newest P xs = None) = (\<forall>x \<in> set xs. \<not> P x)"
  by (induction xs) (auto split: option.splits)

lemma find_newest_less: "find_newest P xs = Some i \<Longrightarrow> i < length xs"
  by (induction xs arbitrary: i) (auto split: option.splits if_splits)

lemma resolve_symbols_kept:
  assumes room: "length (ls_symbols ls) + 6 \<le> LD_MAX_SYMBOLS"
    and mem: "(n, v) \<in> set (linker_values (resolve_symbols ls))"
    and found: "find_global ls n = Some i"
  shows "find_global (resolve_symbols ls) n = Some i" and "i < length (ls_symbols ls)"
proof -
  let ?P = "\<lambda>s. g_bucket s = sym_hash n \<and> ld_str_casecmp (g_name s) n = 0"
  let ?ys = "map (\<lambda>(n, v). linker_symbol n v)
             (filter (\<lambda>(n, v). find_global ls n = None) (linker_values (resolve_symbols ls)))"
  let ?abs = "map (make_absolute (ls_objects (layout_sections ls))) (ls_symbols ls)"
  have sy: "ls_symbols (resolve_symbols ls) = ?abs @ ?ys"
    using resolve_symbols_relocated[of ls] resolve_symbols_injected(1)[OF room]
    by (metis append_take_drop_id)
  have d: "distinct (map (\<lambda>p. sym_hash (fst p)) (linker_values (resolve_symbols ls)))"
    by (rule linker_values_hashes)
  have "\<forall>y \<in> set ?ys. \<not> ?P y"
  proof
    fix y assume "y \<in> set ?ys"
    then obtain m w where y: "y = linker_symbol m w"
      and mw: "(m, w) \<in> set (linker_values (resolve_symbols ls))"
      and nf: "find_global ls m = None" by auto
    from nf found have "m \<noteq> n" by auto
    with d mem mw have "sym_hash m \<noteq> sym_hash n"
      unfolding distinct_map inj_on_def by fastforce
    then show "\<not> ?P y" by (simp add: y linker_symbol_def)
  qed
  then have none: "find_newest ?P ?ys = None" by (simp add: find_newest_None)
  have "find_global (resolve_symbols ls) n = find_newest ?P ?abs"
    unfolding find_global_def[of "resolve_symbols ls"] sy find_newest_append2 none by simp
  also have "\<dots> = find_global ls n"
    by (simp add: find_global_def find_newest_map make_absolute_keeps)
  finally show "find_global (resolve_symbols ls) n = Some i" using found by simp
  from found show "i < length (ls_symbols ls)"
    by (auto simp: find_global_def dest: find_newest_less)
qed

text \<open>
  Claim C3, as the code has it. After library loading, \<^verbatim>\<open>resolve_symbols\<close> gives the
  objects their code bases one after the other from \<open>base_addr\<close>, their data bases from
  \<open>base_addr + total_code\<close> and their BSS bases from \<open>base_addr + total_code +
  total_data\<close>, and it adds the base of the owning object's section to the value of every
  section-relative global symbol: both on every input. Of the six linker-defined names
  \<open>__low_code = base_addr\<close>, \<open>__len_code = total_code\<close>, \<open>__low_data = base_addr +
  total_code\<close>, \<open>__len_data = total_data\<close>, \<open>__low_bss = base_addr + total_code +
  total_data\<close>, \<open>__len_bss = total_bss\<close> it appends, when the table has room for six more
  entries, those that the global table does not hold yet (names compared without regard to
  case), in this order, as absolute symbols. For every name the table holds already nothing
  is appended, one error is counted, and a lookup of the name still finds the symbol that
  was there. So when none of the six names is in the table, exactly the six symbols are
  appended and no error is counted.
\<close>

theorem resolve_symbols_layout:
  "let ls' = resolve_symbols ls; objs = ls_objects ls; objs' = ls_objects ls';
       syms = ls_symbols ls; syms' = ls_symbols ls'; base = ls_base_addr ls;
       named = [(''__low_code'', base),
                (''__len_code'', ls_total_code ls'),
                (''__low_data'', base + ls_total_code ls'),
                (''__len_data'', ls_total_data ls'),
                (''__low_bss'', base + ls_total_code ls' + ls_total_data ls'),
                (''__len_bss'', ls_total_bss ls')] in
     length objs' = length objs \<and>
     ls_base_addr ls' = base \<and>
     ls_total_code ls' = sum_list (map o_code_size objs) \<and>
     ls_total_data ls' = sum_list (map o_data_size objs) \<and>
     ls_total_bss ls' = sum_list (map o_bss_size objs) \<and>
     (\<forall>i < length objs.
        o_code_base (objs' ! i) = base + sum_list (map o_code_size (take i objs)) \<and>
        o_data_base (objs' ! i) =
          base + ls_total_code ls' + sum_list (map o_data_size (take i objs)) \<and>
        o_bss_base (objs' ! i) =
          base + ls_total_code ls' + ls_total_data ls' + sum_list (map o_bss_size (take i objs))) \<and>
     length syms \<le> length syms' \<and>
     (\<forall>j < length syms.
        g_name (syms' ! j) = g_name (syms ! j) \<and>
        g_section (syms' ! j) = g_section (syms ! j) \<and>
        (0 \<le> g_obj_index (syms ! j) \<and> nat (g_obj_index (syms ! j)) < length objs \<longrightarrow>
           (g_section (syms ! j) = SECT_CODE \<longrightarrow> g_value (syms' ! j) =
              g_value (syms ! j) + o_code_base (objs' ! nat (g_obj_index (syms ! j)))) \<and>
           (g_section (syms ! j) = SECT_DATA \<longrightarrow> g_value (syms' ! j) =
              g_value (syms ! j) + o_data_base (objs' ! nat (g_obj_index (syms ! j)))) \<and>
           (g_section (syms ! j) = SECT_BSS \<longrightarrow> g_value (syms' ! j) =
              g_value (syms ! j) + o_bss_base (objs' ! nat (g_obj_index (syms ! j))))) \<and>
        (g_section (syms ! j) \<notin> {SECT_CODE, SECT_DATA, SECT_BSS} \<longrightarrow>
           g_value (syms' ! j) = g_value (syms ! j))) \<and>
     (length syms + 6 \<le> LD_MAX_SYMBOLS \<longrightarrow>
        drop (length syms) syms' =
          map (\<lambda>(n, v). linker_symbol n v) (filter (\<lambda>(n, v). find_global ls n = None) named) \<and>
        ls_errors ls' =
          ls_errors ls + int (length (filter (\<lambda>(n, v). find_global ls n \<noteq> None) named)) \<and>
        (\<forall>n v i. (n, v) \<in> set named \<and> find_global ls n = Some i \<longrightarrow>
           find_global ls' n = Some i \<and> i < length syms)) \<and>
     (length syms + 6 \<le> LD_MAX_SYMBOLS \<and>
      (\<forall>n \<in> set linker_defined_names. find_global ls n = None) \<longrightarrow>
        drop (length syms) syms' = map (\<lambda>(n, v). linker_symbol n v) named \<and>
        ls_errors ls' = ls_errors ls)"
proof -
  let ?L = "layout_sections ls"
  let ?R = "resolve_symbols ls"
  note fr = resolve_symbols_frame[of ls]
  have lv: "linker_values ?R =
       [(''__low_code'', ls_base_addr ls),
        (''__len_code'', ls_total_code ?R),
        (''__low_data'', ls_base_addr ls + ls_total_code ?R),
        (''__len_data'', ls_total_data ?R),
        (''__low_bss'', ls_base_addr ls + ls_total_code ?R + ls_total_data ?R),
        (''__len_bss'', ls_total_bss ?R)]"
    by (simp add: linker_values_def fr)
  have c1: "length (ls_objects ?R) = length (ls_objects ls)"
    by (simp add: fr layout_sections_fields)
  have c2: "ls_total_code ?R = sum_list (map o_code_size (ls_objects ls))"
           "ls_total_data ?R = sum_list (map o_data_size (ls_objects ls))"
           "ls_total_bss ?R = sum_list (map o_bss_size (ls_objects ls))"
           "ls_base_addr ?R = ls_base_addr ls"
    by (simp_all add: fr layout_sections_fields)
  have c3: "\<forall>i < length (ls_objects ls).
        o_code_base (ls_objects ?R ! i) =
          ls_base_addr ls + sum_list (map o_code_size (take i (ls_objects ls))) \<and>
        o_data_base (ls_objects ?R ! i) =
          ls_base_addr ls + ls_total_code ?R
             + sum_list (map o_data_size (take i (ls_objects ls))) \<and>
        o_bss_base (ls_objects ?R ! i) =
          ls_base_addr ls + ls_total_code ?R + ls_total_data ?R
             + sum_list (map o_bss_size (take i (ls_objects ls)))"
    by (simp add: fr(1) c2 layout_sections_nth)
  have len: "length (ls_symbols ls) \<le> length (ls_symbols ?R)"
    using arg_cong[OF resolve_symbols_relocated[of ls], of length] by simp
  have c4: "\<forall>j < length (ls_symbols ls).
      ls_symbols ?R ! j = make_absolute (ls_objects ?R) (ls_symbols ls ! j)"
  proof (intro allI impI)
    fix j assume j: "j < length (ls_symbols ls)"
    have "ls_symbols ?R ! j = take (length (ls_symbols ls)) (ls_symbols ?R) ! j"
      using j by simp
    then show "ls_symbols ?R ! j = make_absolute (ls_objects ?R) (ls_symbols ls ! j)"
      using j by (simp add: resolve_symbols_relocated fr(1))
  qed
  have c6: "\<forall>j < length (ls_symbols ls).
        g_name (make_absolute (ls_objects ?R) (ls_symbols ls ! j)) = g_name (ls_symbols ls ! j) \<and>
        g_section (make_absolute (ls_objects ?R) (ls_symbols ls ! j)) = g_section (ls_symbols ls ! j) \<and>
        (0 \<le> g_obj_index (ls_symbols ls ! j) \<and> nat (g_obj_index (ls_symbols ls ! j)) < length (ls_objects ls) \<longrightarrow>
           (g_section (ls_symbols ls ! j) = SECT_CODE \<longrightarrow> g_value (make_absolute (ls_objects ?R) (ls_symbols ls ! j)) =
              g_value (ls_symbols ls ! j) + o_code_base (ls_objects ?R ! nat (g_obj_index (ls_symbols ls ! j)))) \<and>
           (g_section (ls_symbols ls ! j) = SECT_DATA \<longrightarrow> g_value (make_absolute (ls_objects ?R) (ls_symbols ls ! j)) =
              g_value (ls_symbols ls ! j) + o_data_base (ls_objects ?R ! nat (g_obj_index (ls_symbols ls ! j)))) \<and>
           (g_section (ls_symbols ls ! j) = SECT_BSS \<longrightarrow> g_value (make_absolute (ls_objects ?R) (ls_symbols ls ! j)) =
              g_value (ls_symbols ls ! j) + o_bss_base (ls_objects ?R ! nat (g_obj_index (ls_symbols ls ! j))))) \<and>
        (g_section (ls_symbols ls ! j) \<notin> {SECT_CODE, SECT_DATA, SECT_BSS} \<longrightarrow>
           g_value (make_absolute (ls_objects ?R) (ls_symbols ls ! j)) = g_value (ls_symbols ls ! j))"
    by (simp add: make_absolute_def obj_base_at_def c1 SECT_CODE_def SECT_DATA_def SECT_BSS_def)
  have c46: "\<forall>j < length (ls_symbols ls).
        g_name (ls_symbols ?R ! j) = g_name (ls_symbols ls ! j) \<and>
        g_section (ls_symbols ?R ! j) = g_section (ls_symbols ls ! j) \<and>
        (0 \<le> g_obj_index (ls_symbols ls ! j) \<and> nat (g_obj_index (ls_symbols ls ! j)) < length (ls_objects ls) \<longrightarrow>
           (g_section (ls_symbols ls ! j) = SECT_CODE \<longrightarrow> g_value (ls_symbols ?R ! j) =
              g_value (ls_symbols ls ! j) + o_code_base (ls_objects ?R ! nat (g_obj_index (ls_symbols ls ! j)))) \<and>
           (g_section (ls_symbols ls ! j) = SECT_DATA \<longrightarrow> g_value (ls_symbols ?R ! j) =
              g_value (ls_symbols ls ! j) + o_data_base (ls_objects ?R ! nat (g_obj_index (ls_symbols ls ! j)))) \<and>
           (g_section (ls_symbols ls ! j) = SECT_BSS \<longrightarrow> g_value (ls_symbols ?R ! j) =
              g_value (ls_symbols ls ! j) + o_bss_base (ls_objects ?R ! nat (g_obj_index (ls_symbols ls ! j))))) \<and>
        (g_section (ls_symbols ls ! j) \<notin> {SECT_CODE, SECT_DATA, SECT_BSS} \<longrightarrow>
           g_value (ls_symbols ?R ! j) = g_value (ls_symbols ls ! j))"
  proof (intro allI impI)
    fix j assume j: "j < length (ls_symbols ls)"
    from c4 j have e: "ls_symbols ?R ! j = make_absolute (ls_objects ?R) (ls_symbols ls ! j)"
      by simp
    from c6 j show "g_name (ls_symbols ?R ! j) = g_name (ls_symbols ls ! j) \<and>
        g_section (ls_symbols ?R ! j) = g_section (ls_symbols ls ! j) \<and>
        (0 \<le> g_obj_index (ls_symbols ls ! j) \<and> nat (g_obj_index (ls_symbols ls ! j)) < length (ls_objects ls) \<longrightarrow>
           (g_section (ls_symbols ls ! j) = SECT_CODE \<longrightarrow> g_value (ls_symbols ?R ! j) =
              g_value (ls_symbols ls ! j) + o_code_base (ls_objects ?R ! nat (g_obj_index (ls_symbols ls ! j)))) \<and>
           (g_section (ls_symbols ls ! j) = SECT_DATA \<longrightarrow> g_value (ls_symbols ?R ! j) =
              g_value (ls_symbols ls ! j) + o_data_base (ls_objects ?R ! nat (g_obj_index (ls_symbols ls ! j)))) \<and>
           (g_section (ls_symbols ls ! j) = SECT_BSS \<longrightarrow> g_value (ls_symbols ?R ! j) =
              g_value (ls_symbols ls ! j) + o_bss_base (ls_objects ?R ! nat (g_obj_index (ls_symbols ls ! j))))) \<and>
        (g_section (ls_symbols ls ! j) \<notin> {SECT_CODE, SECT_DATA, SECT_BSS} \<longrightarrow>
           g_value (ls_symbols ?R ! j) = g_value (ls_symbols ls ! j))"
      unfolding e by blast
  qed
  have c7: "length (ls_symbols ls) + 6 \<le> LD_MAX_SYMBOLS \<longrightarrow>
        drop (length (ls_symbols ls)) (ls_symbols ?R) =
          map (\<lambda>(n, v). linker_symbol n v)
            (filter (\<lambda>(n, v). find_global ls n = None) (linker_values ?R)) \<and>
        ls_errors ?R =
          ls_errors ls + int (length (filter (\<lambda>(n, v). find_global ls n \<noteq> None) (linker_values ?R))) \<and>
        (\<forall>n v i. (n, v) \<in> set (linker_values ?R) \<and> find_global ls n = Some i \<longrightarrow>
           find_global ?R n = Some i \<and> i < length (ls_symbols ls))"
    using resolve_symbols_injected[of ls] resolve_symbols_kept[of ls] by blast
  have c8: "length (ls_symbols ls) + 6 \<le> LD_MAX_SYMBOLS \<and>
      (\<forall>n \<in> set linker_defined_names. find_global ls n = None) \<longrightarrow>
        drop (length (ls_symbols ls)) (ls_symbols ?R) =
          map (\<lambda>(n, v). linker_symbol n v) (linker_values ?R) \<and>
        ls_errors ?R = ls_errors ls"
  proof (intro impI, elim conjE)
    assume room: "length (ls_symbols ls) + 6 \<le> LD_MAX_SYMBOLS"
      and free: "\<forall>n \<in> set linker_defined_names. find_global ls n = None"
    have a: "filter (\<lambda>(n, v). find_global ls n = None) (linker_values ?R) = linker_values ?R"
      using free by (simp add: lv linker_defined_names_def)
    have b: "filter (\<lambda>(n, v). find_global ls n \<noteq> None) (linker_values ?R) = []"
      using free by (simp add: lv linker_defined_names_def)
    from resolve_symbols_injected[OF room]
    show "drop (length (ls_symbols ls)) (ls_symbols ?R) =
          map (\<lambda>(n, v). linker_symbol n v) (linker_values ?R) \<and>
        ls_errors ?R = ls_errors ls"
      unfolding a b by simp
  qed
  show ?thesis
    unfolding Let_def lv[symmetric]
    by (intro conjI c1 c2 c3 len c46 c7 c8)
qed

lemma two_objects_names:
  "map (find_global two_objects) linker_defined_names = [None, None, None, None, None, None]"
  "map (find_global len_bss_taken) linker_defined_names = [None, None, None, None, None, Some 1]"
  by (simp_all add: linker_defined_names_def find_global_def two_objects_def len_bss_taken_def
      sym_hash_def ld_lower_def)

lemma two_objects_sizes:
  "length (ls_symbols two_objects) = 1" "length (ls_symbols len_bss_taken) = 2"
  "ls_objects two_objects = [plain_object ''a.o'' 0x10 4 2, plain_object ''b.o'' 0x20 8 6]"
  "ls_objects len_bss_taken = [plain_object ''a.o'' 0x10 4 2, plain_object ''b.o'' 0x20 8 6]"
  "ls_base_addr two_objects = 0x40000" "ls_base_addr len_bss_taken = 0x40000"
  "ls_errors two_objects = 0" "ls_errors len_bss_taken = 0"
  by (simp_all add: two_objects_def len_bss_taken_def)

theorem resolve_symbols_layout_witness:
  "length (ls_symbols two_objects) + 6 \<le> LD_MAX_SYMBOLS \<and>
   map (find_global two_objects) linker_defined_names = [None, None, None, None, None, None] \<and>
   map o_code_base (ls_objects (resolve_symbols two_objects)) = [0x40000, 0x40010] \<and>
   map o_data_base (ls_objects (resolve_symbols two_objects)) = [0x40030, 0x40034] \<and>
   map o_bss_base (ls_objects (resolve_symbols two_objects)) = [0x4003C, 0x4003E] \<and>
   ls_total_code (resolve_symbols two_objects) = 0x30 \<and>
   g_value (ls_symbols (resolve_symbols two_objects) ! 0) = 0x40014 \<and>
   map g_name (drop 1 (ls_symbols (resolve_symbols two_objects))) = linker_defined_names \<and>
   map g_value (drop 1 (ls_symbols (resolve_symbols two_objects))) =
     [0x40000, 0x30, 0x40030, 0xC, 0x4003C, 8] \<and>
   ls_errors (resolve_symbols two_objects) = 0 \<and>
   length (ls_symbols len_bss_taken) + 6 \<le> LD_MAX_SYMBOLS \<and>
   map (find_global len_bss_taken) linker_defined_names = [None, None, None, None, None, Some 1] \<and>
   map o_code_base (ls_objects (resolve_symbols len_bss_taken)) = [0x40000, 0x40010] \<and>
   map o_data_base (ls_objects (resolve_symbols len_bss_taken)) = [0x40030, 0x40034] \<and>
   map o_bss_base (ls_objects (resolve_symbols len_bss_taken)) = [0x4003C, 0x4003E] \<and>
   map g_name (drop 2 (ls_symbols (resolve_symbols len_bss_taken))) =
     [''__low_code'', ''__len_code'', ''__low_data'', ''__len_data'', ''__low_bss''] \<and>
   find_global (resolve_symbols len_bss_taken) ''__len_bss'' = Some 1 \<and>
   g_value (ls_symbols (resolve_symbols len_bss_taken) ! 1) = 0x40040 \<and>
   ls_errors (resolve_symbols len_bss_taken) = 1"
proof -
  have room: "length (ls_symbols two_objects) + 6 \<le> LD_MAX_SYMBOLS"
    "length (ls_symbols len_bss_taken) + 6 \<le> LD_MAX_SYMBOLS"
    by (simp_all add: two_objects_sizes LD_MAX_SYMBOLS_def)
  note n = two_objects_names[unfolded linker_defined_names_def, simplified]
  have fg: "\<And>P. (\<forall>n\<in>set linker_defined_names. P n) =
       (P ''__low_code'' \<and> P ''__len_code'' \<and> P ''__low_data'' \<and> P ''__len_data'' \<and>
        P ''__low_bss'' \<and> P ''__len_bss'')"
    by (simp add: linker_defined_names_def)
  have m: "\<And>f xs. length xs = 2 \<Longrightarrow> map f xs = [f (xs ! 0), f (xs ! 1)]"
    by (auto simp: list_eq_iff_nth_eq less_Suc_eq numeral_2_eq_2)
  have t1: "length (ls_objects (resolve_symbols two_objects)) = 2"
    using resolve_symbols_layout[of two_objects] by (simp add: Let_def two_objects_sizes)
  have t2: "length (ls_objects (resolve_symbols len_bss_taken)) = 2"
    using resolve_symbols_layout[of len_bss_taken] by (simp add: Let_def two_objects_sizes)
  have a: "map o_code_base (ls_objects (resolve_symbols two_objects)) = [0x40000, 0x40010] \<and>
   map o_data_base (ls_objects (resolve_symbols two_objects)) = [0x40030, 0x40034] \<and>
   map o_bss_base (ls_objects (resolve_symbols two_objects)) = [0x4003C, 0x4003E] \<and>
   ls_total_code (resolve_symbols two_objects) = 0x30 \<and>
   g_value (ls_symbols (resolve_symbols two_objects) ! 0) = 0x40014 \<and>
   map g_name (drop 1 (ls_symbols (resolve_symbols two_objects))) = linker_defined_names \<and>
   map g_value (drop 1 (ls_symbols (resolve_symbols two_objects))) =
     [0x40000, 0x30, 0x40030, 0xC, 0x4003C, 8] \<and>
   ls_errors (resolve_symbols two_objects) = 0"
    using resolve_symbols_layout[of two_objects] room(1)
    apply (simp add: Let_def m[OF t1] two_objects_sizes n fg)
    apply (simp add: two_objects_def plain_object_def linker_symbol_def linker_defined_names_def
          SECT_CODE_def numeral_2_eq_2 less_Suc_eq all_conj_distrib)
    done
  have b: "map o_code_base (ls_objects (resolve_symbols len_bss_taken)) = [0x40000, 0x40010] \<and>
   map o_data_base (ls_objects (resolve_symbols len_bss_taken)) = [0x40030, 0x40034] \<and>
   map o_bss_base (ls_objects (resolve_symbols len_bss_taken)) = [0x4003C, 0x4003E] \<and>
   map g_name (drop 2 (ls_symbols (resolve_symbols len_bss_taken))) =
     [''__low_code'', ''__len_code'', ''__low_data'', ''__len_data'', ''__low_bss''] \<and>
   find_global (resolve_symbols len_bss_taken) ''__len_bss'' = Some 1 \<and>
   g_value (ls_symbols (resolve_symbols len_bss_taken) ! 1) = 0x40040 \<and>
   ls_errors (resolve_symbols len_bss_taken) = 1"
    using resolve_symbols_layout[of len_bss_taken] room(2)
    apply (simp add: Let_def m[OF t2] two_objects_sizes n fg)
    apply (simp add: len_bss_taken_def two_objects_def plain_object_def linker_symbol_def
          SECT_CODE_def SECT_BSS_def SECT_DATA_def numeral_2_eq_2 less_Suc_eq all_conj_distrib)
    done
  from room two_objects_names a b show ?thesis by (intro conjI) simp_all
qed

text \<open>
  With an object that exports \<open>__low_code\<close>, five symbols are injected, not six, and
  \<open>__low_code\<close> is the object's symbol, in the code section, not \<open>base_addr\<close>.
\<close>

theorem resolve_symbols_six_counterexample:
  "length (ls_symbols (resolve_symbols low_code_taken)) = 6 \<and>
   find_global (resolve_symbols low_code_taken) ''__low_code'' = Some 0 \<and>
   g_section (ls_symbols (resolve_symbols low_code_taken) ! 0) = SECT_CODE \<and>
   g_value (ls_symbols (resolve_symbols low_code_taken) ! 0) = 0x40005 \<and>
   ls_base_addr (resolve_symbols low_code_taken) = 0x40000 \<and>
   ls_errors (resolve_symbols low_code_taken) = 1"
  by (simp add: resolve_symbols_def inject_linker_symbols_def absolute_symbols_def
        layout_sections_def low_code_taken_def plain_object_def add_global_def find_global_def
        sym_hash_def ld_lower_def make_absolute_def obj_base_at_def SECT_CODE_def SECT_DATA_def
        SECT_BSS_def LD_MAX_SYMBOLS_def str_copy_def LINKER_DEFINED_def)



section \<open>Relocation patching (link\_output)\<close>

lemma and_ff: "(t :: uint24) AND 0xFF = take_bit 8 t"
proof -
  have "(0xFF :: uint24) = mask 8" by (simp add: mask_eq_exp_minus_1)
  then show ?thesis by (simp add: take_bit_eq_mask)
qed

subsection \<open>The bytes at a patch site as numbers\<close>




lemma low_byte_value: "(ucast ((x :: uint24) AND 0xFF) :: uint8) = of_nat (unat x mod 256)"
proof -
  have "(ucast (x AND 0xFF) :: uint8) = ucast x"
    unfolding and_ff by (rule bit_eqI) (auto simp: bit_simps)
  also have "\<dots> = of_nat (unat x)" by simp
  also have "\<dots> = of_nat (unat x mod 256)"
    by (simp only: word_of_nat_eq_iff take_bit_eq_mod) simp
  finally show ?thesis .
qed
















section \<open>Selective library loading (process\_libraries)\<close>

lemma load_object_at_objects:
  "load_object_at ls fname f = (rc, ls') \<Longrightarrow>
   length (ls_objects ls') = length (ls_objects ls) + (if rc = 0 then 1 else 0)"
proof -
  have reg: "\<And>obj idx l s. ls_objects (register_symbol obj idx l s) = ls_objects l"
    by (simp add: register_symbol_def add_global_def split: option.splits)
  have fold: "\<And>obj idx l ss. ls_objects (foldl (register_symbol obj idx) l ss) = ls_objects l"
    subgoal for obj idx l ss
      by (induction ss arbitrary: l) (simp_all add: reg)
    done
  assume "load_object_at ls fname f = (rc, ls')"
  then show ?thesis
    by (auto simp: load_object_at_def Let_def fold split: if_splits)
qed

lemma scan_lib_objects_length:
  "scan_lib_objects undef fname j ls los = (ls', los', tr) \<Longrightarrow> length los' = length los"
  by (induction los arbitrary: j ls ls' los' tr) (auto split: if_splits prod.splits)

lemma scan_lib_objects_range:
  "scan_lib_objects undef fname j ls los = (ls', los', tr) \<Longrightarrow>
   x \<in> set tr \<Longrightarrow> j \<le> x \<and> x < j + length los \<and> \<not> lo_loaded (los ! (x - j))"
proof (induction los arbitrary: j ls ls' los' tr)
  case Nil
  then show ?case by simp
next
  case (Cons lo los)
  then show ?case
    by (fastforce split: if_splits prod.splits simp: nth_Cons' Suc_diff_le)
qed


lemma scan_lib_objects_distinct:
  "scan_lib_objects undef fname j ls los = (ls', los', tr) \<Longrightarrow> distinct tr"
proof (induction los arbitrary: j ls ls' los' tr)
  case Nil
  then show ?case by simp
next
  case (Cons lo los)
  then show ?case
    by (fastforce split: if_splits prod.splits dest: scan_lib_objects_range)
qed

lemma scan_lib_objects_flags:
  "scan_lib_objects undef fname j ls los = (ls', los', tr) \<Longrightarrow> i < length los \<Longrightarrow>
   lo_loaded (los' ! i) = (lo_loaded (los ! i) \<or> j + i \<in> set tr)"
proof (induction los arbitrary: j ls ls' los' tr i)
  case Nil
  then show ?case by simp
next
  case (Cons lo los)
  obtain rc ls1 where ld: "load_object_at ls fname (lo_file lo) = (rc, ls1)"
    by (cases "load_object_at ls fname (lo_file lo)") auto
  let ?skip = "lo_loaded lo \<or> \<not> lib_object_matches undef (lo_file lo)"
  let ?lsn = "if ?skip then ls else ls1"
  obtain ls2 los2 tr2 where rest: "scan_lib_objects undef fname (Suc j) ?lsn los = (ls2, los2, tr2)"
    by (cases "scan_lib_objects undef fname (Suc j) ?lsn los") auto
  have r: "los' = (if \<not> ?skip \<and> rc = 0 then lo\<lparr>lo_loaded := True\<rparr> else lo) # los2"
          "tr = (if \<not> ?skip \<and> rc = 0 then j # tr2 else tr2)"
    using Cons.prems(1) ld rest by (auto split: if_splits)
  have notj: "j \<notin> set tr2"
    using scan_lib_objects_range[OF rest, of j] by auto
  show ?case
  proof (cases i)
    case 0
    then show ?thesis using r notj by auto
  next
    case (Suc i')
    with Cons.prems(2) have "i' < length los" by simp
    from Cons.IH[OF rest this] Suc r show ?thesis by auto
  qed
qed

lemma scan_lib_objects_loaded:
  "scan_lib_objects undef fname j ls los = (ls', los', tr) \<Longrightarrow>
   length (ls_objects ls') = length (ls_objects ls) + length tr"
proof (induction los arbitrary: j ls ls' los' tr)
  case Nil
  then show ?case by simp
next
  case (Cons lo los)
  then show ?case
    by (fastforce split: if_splits prod.splits dest: load_object_at_objects)
qed


lemma scan_libraries_Cons:
  assumes "scan_libraries undef k ls (lib # libs) = (ls', libs', tr)"
  obtains ls1 los1 tr1 libs2 tr2 where
    "scan_lib_objects undef (li_filename lib) 0 ls (li_objects lib) = (ls1, los1, tr1)"
    "scan_libraries undef (Suc k) ls1 libs = (ls', libs2, tr2)"
    "libs' = lib\<lparr>li_objects := los1\<rparr> # libs2" "tr = map (Pair k) tr1 @ tr2"
  using assms by (auto split: prod.splits)

lemma scan_libraries_length:
  "scan_libraries undef k ls libs = (ls', libs', tr) \<Longrightarrow> length libs' = length libs"
proof (induction libs arbitrary: k ls ls' libs' tr)
  case Nil
  then show ?case by simp
next
  case (Cons lib libs)
  from Cons.prems show ?case
    by (rule scan_libraries_Cons) (use Cons.IH in auto)
qed

lemma scan_libraries_range:
  "scan_libraries undef k ls libs = (ls', libs', tr) \<Longrightarrow> (k', j) \<in> set tr \<Longrightarrow>
   k \<le> k' \<and> k' < k + length libs \<and> j < length (li_objects (libs ! (k' - k))) \<and>
   \<not> lo_loaded (li_objects (libs ! (k' - k)) ! j)"
proof (induction libs arbitrary: k ls ls' libs' tr)
  case Nil
  then show ?case by simp
next
  case (Cons lib libs)
  from Cons.prems(1) show ?case
  proof (rule scan_libraries_Cons)
    fix ls1 los1 tr1 libs2 tr2
    assume a: "scan_lib_objects undef (li_filename lib) 0 ls (li_objects lib) = (ls1, los1, tr1)"
      and b: "scan_libraries undef (Suc k) ls1 libs = (ls', libs2, tr2)"
      and c: "libs' = lib\<lparr>li_objects := los1\<rparr> # libs2" "tr = map (Pair k) tr1 @ tr2"
    from Cons.prems(2) c consider "k' = k" "j \<in> set tr1" | "(k', j) \<in> set tr2" by auto
    then show ?thesis
    proof cases
      case 1
      with scan_lib_objects_range[OF a, of j] show ?thesis by simp
    next
      case 2
      from Cons.IH[OF b 2] show ?thesis by (auto simp: nth_Cons' Suc_diff_le)
    qed
  qed
qed

lemma scan_libraries_distinct:
  "scan_libraries undef k ls libs = (ls', libs', tr) \<Longrightarrow> distinct tr"
proof (induction libs arbitrary: k ls ls' libs' tr)
  case Nil
  then show ?case by simp
next
  case (Cons lib libs)
  from Cons.prems(1) show ?case
  proof (rule scan_libraries_Cons)
    fix ls1 los1 tr1 libs2 tr2
    assume a: "scan_lib_objects undef (li_filename lib) 0 ls (li_objects lib) = (ls1, los1, tr1)"
      and b: "scan_libraries undef (Suc k) ls1 libs = (ls', libs2, tr2)"
      and c: "libs' = lib\<lparr>li_objects := los1\<rparr> # libs2" "tr = map (Pair k) tr1 @ tr2"
    have d1: "distinct (map (Pair k) tr1)"
      using scan_lib_objects_distinct[OF a] by (simp add: distinct_map inj_on_def)
    have d2: "distinct tr2" by (rule Cons.IH[OF b])
    have d3: "set (map (Pair k) tr1) \<inter> set tr2 = {}"
      using scan_libraries_range[OF b] by fastforce
    from d1 d2 d3 c show ?thesis by simp
  qed
qed

lemma scan_libraries_flags:
  "scan_libraries undef k ls libs = (ls', libs', tr) \<Longrightarrow> i < length libs \<Longrightarrow>
   length (li_objects (libs' ! i)) = length (li_objects (libs ! i)) \<and>
   (\<forall>j < length (li_objects (libs ! i)).
      lo_loaded (li_objects (libs' ! i) ! j) =
        (lo_loaded (li_objects (libs ! i) ! j) \<or> (k + i, j) \<in> set tr))"
proof (induction libs arbitrary: k ls ls' libs' tr i)
  case Nil
  then show ?case by simp
next
  case (Cons lib libs)
  from Cons.prems(1) show ?case
  proof (rule scan_libraries_Cons)
    fix ls1 los1 tr1 libs2 tr2
    assume a: "scan_lib_objects undef (li_filename lib) 0 ls (li_objects lib) = (ls1, los1, tr1)"
      and b: "scan_libraries undef (Suc k) ls1 libs = (ls', libs2, tr2)"
      and c: "libs' = lib\<lparr>li_objects := los1\<rparr> # libs2" "tr = map (Pair k) tr1 @ tr2"
    show ?thesis
    proof (cases i)
      case 0
      have "\<And>j. (k, j) \<notin> set tr2" using scan_libraries_range[OF b] by fastforce
      then show ?thesis
        using 0 c scan_lib_objects_length[OF a] scan_lib_objects_flags[OF a]
        by (auto simp: image_iff)
    next
      case (Suc i')
      with Cons.prems(2) have i': "i' < length libs" by simp
      from Cons.IH[OF b i'] Suc c show ?thesis by (auto simp: image_iff)
    qed
  qed
qed

lemma scan_libraries_loaded:
  "scan_libraries undef k ls libs = (ls', libs', tr) \<Longrightarrow>
   length (ls_objects ls') = length (ls_objects ls) + length tr"
proof (induction libs arbitrary: k ls ls' libs' tr)
  case Nil
  then show ?case by simp
next
  case (Cons lib libs)
  from Cons.prems(1) show ?case
  proof (rule scan_libraries_Cons)
    fix ls1 los1 tr1 libs2 tr2
    assume a: "scan_lib_objects undef (li_filename lib) 0 ls (li_objects lib) = (ls1, los1, tr1)"
      and b: "scan_libraries undef (Suc k) ls1 libs = (ls', libs2, tr2)"
      and c: "libs' = lib\<lparr>li_objects := los1\<rparr> # libs2" "tr = map (Pair k) tr1 @ tr2"
    from scan_lib_objects_loaded[OF a] Cons.IH[OF b] c show ?thesis by simp
  qed
qed

lemma library_pass_facts:
  assumes "library_pass undef ls = (ls', tr)"
  shows "distinct tr"
    and "length (ls_objects ls') = length (ls_objects ls) + length tr"
    and "e \<in> set tr \<Longrightarrow> entry_unloaded (ls_libraries ls) e"
    and "entry_unloaded (ls_libraries ls') e =
           (entry_unloaded (ls_libraries ls) e \<and> e \<notin> set tr)"
proof -
  obtain ls1 libs' where sc: "scan_libraries undef 0 ls (ls_libraries ls) = (ls1, libs', tr)"
    and ls': "ls' = ls1\<lparr>ls_libraries := libs'\<rparr>"
    using assms by (auto simp: library_pass_def split: prod.splits)
  show "distinct tr" by (rule scan_libraries_distinct[OF sc])
  show "length (ls_objects ls') = length (ls_objects ls) + length tr"
    using scan_libraries_loaded[OF sc] ls' by simp
  show "e \<in> set tr \<Longrightarrow> entry_unloaded (ls_libraries ls) e"
    using scan_libraries_range[OF sc, of "fst e" "snd e"]
    by (cases e) (simp add: entry_unloaded_def)
  show "entry_unloaded (ls_libraries ls') e =
           (entry_unloaded (ls_libraries ls) e \<and> e \<notin> set tr)"
    using scan_libraries_flags[OF sc, of "fst e"] scan_libraries_length[OF sc] ls'
    by (cases e) (auto simp: entry_unloaded_def)
qed

lemma load_object_at_failed:
  "load_object_at ls fname f = (rc, ls') \<Longrightarrow> rc \<noteq> 0 \<Longrightarrow> ls' = ls"
  by (auto simp: load_object_at_def Let_def split: if_splits)

lemma scan_lib_objects_idle:
  "scan_lib_objects undef fname j ls los = (ls', los', []) \<Longrightarrow> ls' = ls \<and> los' = los"
proof (induction los arbitrary: j ls ls' los')
  case Nil
  then show ?case by simp
next
  case (Cons lo los)
  then show ?case
    by (auto split: if_splits prod.splits dest: load_object_at_failed)
qed

lemma scan_libraries_idle:
  "scan_libraries undef k ls libs = (ls', libs', []) \<Longrightarrow> ls' = ls \<and> libs' = libs"
proof (induction libs arbitrary: k ls ls' libs')
  case Nil
  then show ?case by simp
next
  case (Cons lib libs)
  from Cons.prems show ?case
  proof (rule scan_libraries_Cons)
    fix ls1 los1 tr1 libs2 tr2
    assume a: "scan_lib_objects undef (li_filename lib) 0 ls (li_objects lib) = (ls1, los1, tr1)"
      and b: "scan_libraries undef (Suc k) ls1 libs = (ls', libs2, tr2)"
      and c: "libs' = lib\<lparr>li_objects := los1\<rparr> # libs2" "[] = map (Pair k) tr1 @ tr2"
    from c(2) have e: "tr1 = []" "tr2 = []" by simp_all
    from scan_lib_objects_idle[OF a[unfolded e]] Cons.IH[OF b[unfolded e]] c(1)
    show ?thesis by simp
  qed
qed

lemma library_pass_idle:
  "library_pass undef ls = (ls', []) \<Longrightarrow> ls' = ls"
  by (auto simp: library_pass_def split: prod.splits dest!: scan_libraries_idle)

lemma library_pass_libraries:
  "library_pass undef ls = (ls', tr) \<Longrightarrow> length (ls_libraries ls') = length (ls_libraries ls)"
  by (auto simp: library_pass_def split: prod.splits dest: scan_libraries_length)

lemma process_loop_facts:
  "process_loop ls = (ls', trs) \<Longrightarrow>
     distinct (concat trs) \<and>
     (\<forall>e \<in> set (concat trs). entry_unloaded (ls_libraries ls) e) \<and>
     (\<forall>e. entry_unloaded (ls_libraries ls') e =
            (entry_unloaded (ls_libraries ls) e \<and> e \<notin> set (concat trs))) \<and>
     length (ls_objects ls') = length (ls_objects ls) + length (concat trs) \<and>
     unloaded_count (ls_libraries ls') + length (concat trs) = unloaded_count (ls_libraries ls) \<and>
     length (ls_libraries ls') = length (ls_libraries ls) \<and>
     trs \<noteq> [] \<and> last trs = [] \<and> (\<forall>t \<in> set (butlast trs). t \<noteq> []) \<and>
     process_loop ls' = (ls', [[]])"
proof (induction ls arbitrary: ls' trs rule: process_loop.induct)
  case (1 ls)
  show ?case
  proof (cases "collect_undefined ls = []")
    case True
    with "1.prems" have r: "ls' = ls" "trs = [[]]" by (simp_all add: process_loop.simps)
    have "process_loop ls = (ls, [[]])" using True by (simp add: process_loop.simps)
    with r show ?thesis by simp
  next
    case False
    obtain ls1 tr1 where lp: "library_pass (collect_undefined ls) ls = (ls1, tr1)"
      by (cases "library_pass (collect_undefined ls) ls") auto
    note f = library_pass_facts[OF lp] library_pass_count[OF lp] library_pass_libraries[OF lp]
    show ?thesis
    proof (cases "tr1 = []")
      case True
      with "1.prems" False lp have r: "ls' = ls1" "trs = [[]]"
        by (simp_all add: process_loop.simps)
      from library_pass_idle[OF lp[unfolded True]] have same: "ls1 = ls" .
      have "process_loop ls = (ls, [[]])"
        using False lp True same by (simp add: process_loop.simps)
      with r same show ?thesis by simp
    next
      case ne: False
      obtain ls2 trs2 where rec: "process_loop ls1 = (ls2, trs2)"
        by (cases "process_loop ls1") auto
      from "1.prems" False lp ne rec have r: "ls' = ls2" "trs = tr1 # trs2"
        by (simp_all add: process_loop.simps)
      from "1.IH"[OF refl False lp[symmetric] ne rec]
      have ih: "distinct (concat trs2)"
        "\<forall>e \<in> set (concat trs2). entry_unloaded (ls_libraries ls1) e"
        "\<forall>e. entry_unloaded (ls_libraries ls2) e =
            (entry_unloaded (ls_libraries ls1) e \<and> e \<notin> set (concat trs2))"
        "length (ls_objects ls2) = length (ls_objects ls1) + length (concat trs2)"
        "unloaded_count (ls_libraries ls2) + length (concat trs2) = unloaded_count (ls_libraries ls1)"
        "length (ls_libraries ls2) = length (ls_libraries ls1)"
        "trs2 \<noteq> []" "last trs2 = []" "\<forall>t \<in> set (butlast trs2). t \<noteq> []"
        "process_loop ls2 = (ls2, [[]])" by simp_all
      from ih(2) f(4) have disj: "set tr1 \<inter> set (concat trs2) = {}" by auto
      from ih(2) f(4) have un2: "\<forall>e \<in> set (concat trs2). entry_unloaded (ls_libraries ls) e"
        by auto
      have fl: "\<forall>e. entry_unloaded (ls_libraries ls2) e =
            (entry_unloaded (ls_libraries ls) e \<and> e \<notin> set (concat (tr1 # trs2)))"
        using ih(3) f(4) by auto
      have d: "distinct (concat (tr1 # trs2))" using f(1) ih(1) disj by simp
      have un: "\<forall>e \<in> set (concat (tr1 # trs2)). entry_unloaded (ls_libraries ls) e"
        using f(3) un2 by auto
      have len: "length (ls_objects ls2) = length (ls_objects ls) + length (concat (tr1 # trs2))"
        using f(2) ih(4) by simp
      have cnt: "unloaded_count (ls_libraries ls2) + length (concat (tr1 # trs2))
                   = unloaded_count (ls_libraries ls)"
        using f(5) ih(5) by simp
      have shape: "tr1 # trs2 \<noteq> []" "last (tr1 # trs2) = []"
        "\<forall>t \<in> set (butlast (tr1 # trs2)). t \<noteq> []"
        using ih(7,8,9) ne by auto
      show ?thesis
        unfolding r using d un fl len cnt shape ih(6,10) f(6) by simp
    qed
  qed
qed

lemma length_le_concat: "(\<forall>t \<in> set xs. t \<noteq> []) \<Longrightarrow> length xs \<le> length (concat xs)"
proof (induction xs)
  case Nil
  then show ?case by simp
next
  case (Cons x xs)
  then have "1 \<le> length x" by (cases x) auto
  with Cons show ?case by simp
qed

lemma passes_bound:
  assumes "trs \<noteq> []" "last trs = []" "\<forall>t \<in> set (butlast trs). t \<noteq> []"
  shows "length trs \<le> length (concat trs) + 1"
proof -
  from assms(1) have e: "trs = butlast trs @ [last trs]" by simp
  have "length (butlast trs) \<le> length (concat (butlast trs))"
    by (rule length_le_concat[OF assms(3)])
  moreover have "concat trs = concat (butlast trs)"
    by (subst e) (simp add: assms(2))
  ultimately show ?thesis using assms(1) by simp
qed

text \<open>
  Claim C6. The selective loading loop is a total function (its termination is proved
  with the definition of \<open>process_loop\<close>: every pass that loads something lowers the
  number of catalogue entries not yet loaded), and on every input: the entries loaded over
  the whole run are pairwise distinct and were not loaded before, so each library object is
  loaded at most once; exactly these entries are marked loaded afterwards and each adds one
  object; with at least one library, every pass but the last loads an object and the last
  pass loads none, so the loop exits after the first pass that loads no object, whichever
  pass that is, after at most as many passes as there are entries not yet loaded plus one;
  running the loop again on the result makes one pass that loads nothing and leaves the
  state as it is; and when no external is undefined the run loads nothing and leaves the
  state as it is.
\<close>

theorem process_libraries_terminates:
  "case process_libraries ls of (ls', passes) \<Rightarrow>
      length passes \<le> unloaded_count (ls_libraries ls) + 1 \<and>
      distinct (concat passes) \<and>
      (\<forall>e \<in> set (concat passes). entry_unloaded (ls_libraries ls) e) \<and>
      (\<forall>e. entry_unloaded (ls_libraries ls') e =
             (entry_unloaded (ls_libraries ls) e \<and> e \<notin> set (concat passes))) \<and>
      length (ls_objects ls') = length (ls_objects ls) + length (concat passes) \<and>
      (ls_libraries ls \<noteq> [] \<longrightarrow>
         passes \<noteq> [] \<and> last passes = [] \<and> (\<forall>t \<in> set (butlast passes). t \<noteq> []) \<and>
         process_libraries ls' = (ls', [[]])) \<and>
      (ls_libraries ls = [] \<longrightarrow> passes = [] \<and> ls' = ls) \<and>
      (collect_undefined ls = [] \<longrightarrow> ls' = ls \<and> concat passes = [])"
proof (cases "ls_libraries ls = []")
  case True
  then show ?thesis by (simp add: process_libraries_def)
next
  case False
  obtain ls' trs where pl: "process_loop ls = (ls', trs)"
    by (cases "process_loop ls") auto
  note f = process_loop_facts[OF pl]
  from f have shape: "trs \<noteq> []" "last trs = []" "\<forall>t \<in> set (butlast trs). t \<noteq> []"
    by simp_all
  have bound: "length trs \<le> unloaded_count (ls_libraries ls) + 1"
    using passes_bound[OF shape] f by simp
  have libs': "ls_libraries ls' \<noteq> []" using f False by auto
  have again: "process_libraries ls' = (ls', [[]])"
    using f libs' by (simp add: process_libraries_def)
  have closed: "collect_undefined ls = [] \<longrightarrow> ls' = ls \<and> concat trs = []"
    using pl by (auto simp: process_loop.simps)
  from f bound again closed False pl show ?thesis
    by (simp add: process_libraries_def)
qed

lemma chain_hashes: "sym_hash ''_printf'' = 77" "sym_hash ''_putc'' = 104"
  by (simp_all add: sym_hash_def ld_lower_def)

lemmas chain_defs = chain_link_def main_obj_def printf_obj_def unused_obj_def putc_obj_def
  obj_info_of_def

lemma chain_undefined0: "collect_undefined chain_link = [''_printf'']"
  by (simp add: collect_undefined_def chain_defs get_object_externals_def
        add_undefined_def find_global_def cstr_at_def str_copy_def LD_MAX_EXTERNS_def)

lemma chain_pass0: "library_pass [''_printf''] chain_link = (chain_link1, [(0, 0)])"
  by (simp add: library_pass_def chain_link1_def chain_link_def lib_object_matches_def
        load_object_at_def LD_MAX_OBJECTS_def register_symbol_def add_global_def find_global_def
        LD_MAX_SYMBOLS_def cstr_at_def str_copy_def chain_hashes ld_lower_def
        main_obj_def printf_obj_def unused_obj_def putc_obj_def obj_info_of_def)


lemmas chain_eval = lib_object_matches_def
        load_object_at_def LD_MAX_OBJECTS_def register_symbol_def add_global_def find_global_def
        LD_MAX_SYMBOLS_def cstr_at_def str_copy_def chain_hashes ld_lower_def
        main_obj_def printf_obj_def unused_obj_def putc_obj_def obj_info_of_def
        get_object_externals_def add_undefined_def LD_MAX_EXTERNS_def

lemma chain_undefined1: "collect_undefined chain_link1 = [''_putc'']"
  by (simp add: collect_undefined_def chain_link1_def chain_link_def chain_eval)

lemma chain_pass1: "library_pass [''_putc''] chain_link1 = (chain_link2, [(0, 2)])"
  by (simp add: library_pass_def chain_link2_def chain_link1_def chain_link_def chain_eval)

lemma chain_undefined2: "collect_undefined chain_link2 = []"
  by (simp add: collect_undefined_def chain_link2_def chain_link_def chain_eval)


lemma chain_link_run:
  "process_libraries chain_link = (chain_link2, [[(0, 0)], [(0, 2)], []])"
  "process_libraries chain_link2 = (chain_link2, [[]])"
proof -
  have p2: "process_loop chain_link2 = (chain_link2, [[]])"
    by (simp add: process_loop.simps[of chain_link2] chain_undefined2)
  have p1: "process_loop chain_link1 = (chain_link2, [[(0, 2)], []])"
    by (simp add: process_loop.simps[of chain_link1] chain_undefined1 chain_pass1 p2)
  have p0: "process_loop chain_link = (chain_link2, [[(0, 0)], [(0, 2)], []])"
    by (simp add: process_loop.simps[of chain_link] chain_undefined0 chain_pass0 p1)
  show "process_libraries chain_link = (chain_link2, [[(0, 0)], [(0, 2)], []])"
    by (simp add: process_libraries_def p0) (simp add: chain_link_def)
  show "process_libraries chain_link2 = (chain_link2, [[]])"
    by (simp add: process_libraries_def p2) (simp add: chain_link2_def chain_link_def)
qed

lemma needy_undefined0: "collect_undefined needy_link = [''_printf'', ''_putc'', ''_nowhere'']"
  by (simp add: collect_undefined_def needy_link_def needy_obj_def chain_link_def chain_eval)

lemma needy_pass0:
  "library_pass [''_printf'', ''_putc'', ''_nowhere''] needy_link = (needy_link1, [(0, 0), (0, 2)])"
  by (simp add: library_pass_def needy_link1_def needy_link_def needy_obj_def chain_link2_def
      chain_link_def chain_eval)

lemma needy_undefined1: "collect_undefined needy_link1 = [''_nowhere'']"
  by (simp add: collect_undefined_def needy_link1_def needy_obj_def chain_link2_def
      chain_link_def chain_eval)

lemma needy_pass1: "library_pass [''_nowhere''] needy_link1 = (needy_link1, [])"
  by (simp add: library_pass_def needy_link1_def needy_obj_def chain_link2_def
      chain_link_def chain_eval)

lemma needy_link_run:
  "process_libraries needy_link = (needy_link1, [[(0, 0), (0, 2)], []])"
proof -
  have p1: "process_loop needy_link1 = (needy_link1, [[]])"
    by (simp add: process_loop.simps[of needy_link1] needy_undefined1 needy_pass1)
  have p0: "process_loop needy_link = (needy_link1, [[(0, 0), (0, 2)], []])"
    by (simp add: process_loop.simps[of needy_link] needy_undefined0 needy_pass0 p1)
  show ?thesis
    by (simp add: process_libraries_def p0) (simp add: needy_link_def chain_link_def)
qed

theorem process_libraries_terminates_witness:
  "ls_libraries chain_link \<noteq> [] \<and>
   process_libraries chain_link = (chain_link2, [[(0, 0)], [(0, 2)], []]) \<and>
   unloaded_count (ls_libraries chain_link) = 3 \<and>
   entry_unloaded (ls_libraries chain_link) (0, 0) \<and>
   entry_unloaded (ls_libraries chain_link) (0, 2) \<and>
   \<not> entry_unloaded (ls_libraries chain_link2) (0, 0) \<and>
   entry_unloaded (ls_libraries chain_link2) (0, 1) \<and>
   \<not> entry_unloaded (ls_libraries chain_link2) (0, 2) \<and>
   length (ls_objects chain_link2) = length (ls_objects chain_link) + 2 \<and>
   collect_undefined chain_link2 = [] \<and>
   process_libraries chain_link2 = (chain_link2, [[]]) \<and>
   ls_libraries needy_link \<noteq> [] \<and>
   process_libraries needy_link = (needy_link1, [[(0, 0), (0, 2)], []]) \<and>
   collect_undefined needy_link1 = [''_nowhere''] \<and>
   process_libraries needy_link1 = (needy_link1, [[]]) \<and>
   ls_libraries two_objects = [] \<and>
   process_libraries two_objects = (two_objects, [])"
proof -
  have l: "ls_libraries chain_link \<noteq> []" "ls_libraries needy_link \<noteq> []"
    "ls_libraries two_objects = []"
    by (simp_all add: chain_link_def needy_link_def two_objects_def)
  have u: "unloaded_count (ls_libraries chain_link) = 3"
    by (simp add: unloaded_count_def chain_link_def)
  have e0: "entry_unloaded (ls_libraries chain_link) (0, 1)"
    by (simp add: entry_unloaded_def chain_link_def)
  have a: "entry_unloaded (ls_libraries chain_link) (0, 0) \<and>
   entry_unloaded (ls_libraries chain_link) (0, 2) \<and>
   \<not> entry_unloaded (ls_libraries chain_link2) (0, 0) \<and>
   entry_unloaded (ls_libraries chain_link2) (0, 1) \<and>
   \<not> entry_unloaded (ls_libraries chain_link2) (0, 2) \<and>
   length (ls_objects chain_link2) = length (ls_objects chain_link) + 2"
    using process_libraries_terminates[of chain_link] e0
    by (simp add: chain_link_run)
  have b: "process_libraries needy_link1 = (needy_link1, [[]])"
    using process_libraries_terminates[of needy_link] l(2)
    by (simp add: needy_link_run)
  have c: "process_libraries two_objects = (two_objects, [])"
    using process_libraries_terminates[of two_objects] l(3)
    by (cases "process_libraries two_objects") simp
  have d: "process_libraries chain_link2 = (chain_link2, [[]])"
    using process_libraries_terminates[of chain_link2] chain_undefined2
    by (simp add: chain_link_run(2))
  show ?thesis
    using l u a b c d chain_link_run(1) needy_link_run chain_undefined2 needy_undefined1
    by simp
qed


section \<open>What the expression parser leaves unchanged\<close>

lemma outside_cursor_simps [simp]:
  "outside_cursor (lexer_next as) = outside_cursor as"
  "outside_cursor (asm_error as) = outside_cursor as"
  by (simp_all add: outside_cursor_def lexer_next_def asm_error_def split: prod.splits)

lemma outside_cursor_primary_ident:
  "primary_ident as so = (v, so1, as1) \<Longrightarrow> outside_cursor as1 = outside_cursor as"
  by (auto simp: primary_ident_def Let_def split: option.splits if_splits)

lemma outside_cursor_mul_combine:
  "mul_combine as op val rhs = (v, as1) \<Longrightarrow> outside_cursor as1 = outside_cursor as"
  by (auto simp: mul_combine_def split: if_splits)

lemma parse_run_frame:
  "parse_run n c = Some (v, so, as') \<Longrightarrow> outside_cursor as' = outside_cursor (call_state c)"
proof (induction n arbitrary: c v so as')
  case 0
  then show ?case by simp
next
  case (Suc n)
  note ih = Suc.IH
  show ?case
  proof (cases c)
    case (Primary as so0)
    then show ?thesis using Suc.prems
      by (auto simp: parse_step_def split: if_splits option.splits prod.splits
          dest!: ih outside_cursor_primary_ident)
  next
    case (Mul as so0)
    then show ?thesis using Suc.prems
      by (auto simp: parse_step_def split: if_splits option.splits prod.splits dest!: ih)
  next
    case (Mul_loop val as so0)
    then show ?thesis using Suc.prems
      by (auto simp: parse_step_def split: if_splits option.splits prod.splits
          dest!: ih outside_cursor_mul_combine)
  next
    case (Add as)
    then show ?thesis using Suc.prems
      by (auto simp: parse_step_def split: if_splits option.splits prod.splits dest!: ih)
  next
    case (Add_loop val lhs as)
    then show ?thesis using Suc.prems
      by (auto simp: parse_step_def split: if_splits option.splits prod.splits dest!: ih)
  qed
qed

lemma parse_expression_frame:
  "outside_cursor (snd (snd (snd (parse_expression as)))) = outside_cursor as"
  using parse_run_frame[of "5 * tokens_left as + 5" "Add as"]
  by (auto simp: parse_expression_def parse_expr_add_def split: option.splits)

lemma outside_cursor_fields:
  assumes "outside_cursor as' = outside_cursor as"
  shows "pc as' = pc as" "code_size as' = code_size as" "data_size as' = data_size as"
    "bss_size as' = bss_size as" "code_tmp as' = code_tmp as" "data_tmp as' = data_tmp as"
    "code_pc as' = code_pc as" "data_pc as' = data_pc as" "bss_pc as' = bss_pc as"
    "reloc_tmp as' = reloc_tmp as" "num_relocs as' = num_relocs as"
    "current_section as' = current_section as" "pass as' = pass as"
    "symbols as' = symbols as" "externs as' = externs as" "local_scope as' = local_scope as"
  using assms unfolding outside_cursor_def
  by (cases as, cases as', simp)+

lemma dir_ds_negative_frame:
  assumes "sint (fst (snd (parse_expression (lexer_next as)))) < 0"
  shows "outside_cursor (snd (dir_ds as)) = outside_cursor as"
proof -
  obtain h count sname as1 where p: "parse_expression (lexer_next as) = (h, count, sname, as1)"
    by (cases "parse_expression (lexer_next as)") auto
  have f1: "outside_cursor as1 = outside_cursor as"
    using parse_expression_frame[of "lexer_next as"] p by simp
  obtain h2 v2 s2 as2 where p2: "parse_expression (lexer_next as1) = (h2, v2, s2, as2)"
    by (cases "parse_expression (lexer_next as1)") auto
  have f2: "outside_cursor as2 = outside_cursor as"
    using parse_expression_frame[of "lexer_next as1"] p2 f1 by simp
  from assms p have neg: "nat (sint count) = 0" by simp
  show ?thesis using p p2 f1 f2 neg
    by (simp add: dir_ds_def emit_bytes_def)
qed

subsection \<open>A larger budget gives the same result\<close>





subsection \<open>The result of parse\_expression from a run of the parser\<close>








lemma parse_step_Add_loop_turn:
  "cur_type as = TOK_PLUS \<or> cur_type as = TOK_MINUS \<Longrightarrow>
   rec (Mul (lexer_next as) ([], False)) = Some (rhs, rhs_so, as1) \<Longrightarrow>
   parse_step rec (Add_loop val lhs as) =
     rec (Add_loop (fst (add_combine as1 (cur_type as) val lhs rhs rhs_so))
            (snd (add_combine as1 (cur_type as) val lhs rhs rhs_so)) as1)"
  by (simp add: parse_step_def case_prod_beta)


section \<open>LD of the 24-bit register pairs\<close>

lemma find_ld_rr16_rows:
  "reg \<in> {REG_BC, REG_DE, REG_HL, REG_IX, REG_IY} \<Longrightarrow>
   \<exists>e. find_ld_rr16 reg = Some e \<and>
       [load_hl e, store_hl e, load_ix e, store_ix e, load_iy e, store_iy e] = spec_ld_row reg"
  by (auto simp: find_ld_rr16_def ld_rr16_table_def spec_ld_row_def reg_defs)

lemma reg16_no_reg8:
  "reg \<in> {REG_BC, REG_DE, REG_HL, REG_IX, REG_IY} \<Longrightarrow> get_reg8_code reg = -1"
  by (auto simp: get_reg8_code_def reg_defs)

lemma emit_bytes_2: "emit_bytes as [a, b] = emit_byte (emit_byte as a) b"
  by (simp add: emit_bytes_def)

lemma emit_bytes_3: "emit_bytes as [a, b, c] = emit_byte (emit_byte (emit_byte as a) b) c"
  by (simp add: emit_bytes_def)

lemma ld_encode_forms:
  assumes reg: "reg \<in> {REG_BC, REG_DE, REG_HL, REG_IX, REG_IY}"
  shows "\<lbrakk>op_kind d = OP_REG; op_reg d = reg; op_kind s = OP_IND_REG; op_reg s = REG_IND_HL\<rbrakk>
           \<Longrightarrow> ld_encode as d s = (0, emit_bytes as [0xED, spec_ld_row reg ! 0])"
    and "\<lbrakk>op_kind d = OP_IND_REG; op_reg d = REG_IND_HL; op_kind s = OP_REG; op_reg s = reg\<rbrakk>
           \<Longrightarrow> ld_encode as d s = (0, emit_bytes as [0xED, spec_ld_row reg ! 1])"
    and "\<lbrakk>op_kind d = OP_REG; op_reg d = reg; op_kind s = OP_IX_OFF\<rbrakk>
           \<Longrightarrow> ld_encode as d s = (0, emit_bytes as [0xDD, spec_ld_row reg ! 2, low_byte (op_value s)])"
    and "\<lbrakk>op_kind d = OP_IX_OFF; op_kind s = OP_REG; op_reg s = reg\<rbrakk>
           \<Longrightarrow> ld_encode as d s = (0, emit_bytes as [0xDD, spec_ld_row reg ! 3, low_byte (op_value d)])"
    and "\<lbrakk>op_kind d = OP_REG; op_reg d = reg; op_kind s = OP_IY_OFF\<rbrakk>
           \<Longrightarrow> ld_encode as d s = (0, emit_bytes as [0xFD, spec_ld_row reg ! 4, low_byte (op_value s)])"
    and "\<lbrakk>op_kind d = OP_IY_OFF; op_kind s = OP_REG; op_reg s = reg\<rbrakk>
           \<Longrightarrow> ld_encode as d s = (0, emit_bytes as [0xFD, spec_ld_row reg ! 5, low_byte (op_value d)])"
proof -
  from find_ld_rr16_rows[OF reg] obtain e where
    e: "find_ld_rr16 reg = Some e"
       "[load_hl e, store_hl e, load_ix e, store_ix e, load_iy e, store_iy e] = spec_ld_row reg"
    by blast
  have row: "load_hl e = spec_ld_row reg ! 0" "store_hl e = spec_ld_row reg ! 1"
    "load_ix e = spec_ld_row reg ! 2" "store_ix e = spec_ld_row reg ! 3"
    "load_iy e = spec_ld_row reg ! 4" "store_iy e = spec_ld_row reg ! 5"
    unfolding e(2)[symmetric] by simp_all
  note r8 = reg16_no_reg8[OF reg]
  note early = ld_reg_reg_def ld_reg_imm_def ld_reg_hl_def ld_hl_reg_def ld_hl_imm_def
    ld_reg_idx_def ld_idx_reg_def
  show "\<lbrakk>op_kind d = OP_REG; op_reg d = reg; op_kind s = OP_IND_REG; op_reg s = REG_IND_HL\<rbrakk>
           \<Longrightarrow> ld_encode as d s = (0, emit_bytes as [0xED, spec_ld_row reg ! 0])"
    by (simp add: ld_encode_def ld_blocks_def early e(1) row emit_bytes_2)
  show "\<lbrakk>op_kind d = OP_IND_REG; op_reg d = REG_IND_HL; op_kind s = OP_REG; op_reg s = reg\<rbrakk>
           \<Longrightarrow> ld_encode as d s = (0, emit_bytes as [0xED, spec_ld_row reg ! 1])"
    by (simp add: ld_encode_def ld_blocks_def early e(1) row emit_bytes_2)
  show "\<lbrakk>op_kind d = OP_REG; op_reg d = reg; op_kind s = OP_IX_OFF\<rbrakk>
           \<Longrightarrow> ld_encode as d s = (0, emit_bytes as [0xDD, spec_ld_row reg ! 2, low_byte (op_value s)])"
    by (simp add: ld_encode_def ld_blocks_def early e(1) row r8 emit_bytes_3 emit_idx_off_prefix_def)
  show "\<lbrakk>op_kind d = OP_IX_OFF; op_kind s = OP_REG; op_reg s = reg\<rbrakk>
           \<Longrightarrow> ld_encode as d s = (0, emit_bytes as [0xDD, spec_ld_row reg ! 3, low_byte (op_value d)])"
    by (simp add: ld_encode_def ld_blocks_def early e(1) row r8 emit_bytes_3 emit_idx_off_prefix_def)
  show "\<lbrakk>op_kind d = OP_REG; op_reg d = reg; op_kind s = OP_IY_OFF\<rbrakk>
           \<Longrightarrow> ld_encode as d s = (0, emit_bytes as [0xFD, spec_ld_row reg ! 4, low_byte (op_value s)])"
    by (simp add: ld_encode_def ld_blocks_def early e(1) row r8 emit_bytes_3 emit_idx_off_prefix_def)
  show "\<lbrakk>op_kind d = OP_IY_OFF; op_kind s = OP_REG; op_reg s = reg\<rbrakk>
           \<Longrightarrow> ld_encode as d s = (0, emit_bytes as [0xFD, spec_ld_row reg ! 5, low_byte (op_value d)])"
    by (simp add: ld_encode_def ld_blocks_def early e(1) row r8 emit_bytes_3 emit_idx_off_prefix_def)
qed

lemma emit_byte_code:
  assumes "pass as = 2" "current_section as = SECT_CODE" "code_tmp as = Some f"
  shows "emit_byte as b = as\<lparr>code_tmp := Some (f @ [b]), code_size := code_size as + 1,
                              pc := pc as + 1\<rparr>"
  using assms by (simp add: emit_byte_def Let_def)

lemma emit_bytes_code:
  assumes "pass as = 2" "current_section as = SECT_CODE" "code_tmp as = Some f"
  shows "emit_bytes as bs = as\<lparr>code_tmp := Some (f @ bs),
           code_size := code_size as + of_nat (length bs), pc := pc as + of_nat (length bs)\<rparr>"
  using assms
proof (induction bs arbitrary: as f)
  case Nil
  then show ?case by (simp add: emit_bytes_def)
next
  case (Cons b bs)
  let ?a1 = "emit_byte as b"
  have a1: "?a1 = as\<lparr>code_tmp := Some (f @ [b]), code_size := code_size as + 1,
                              pc := pc as + 1\<rparr>"
    by (rule emit_byte_code[OF Cons.prems])
  have "emit_bytes ?a1 bs = ?a1\<lparr>code_tmp := Some ((f @ [b]) @ bs),
           code_size := code_size ?a1 + of_nat (length bs), pc := pc ?a1 + of_nat (length bs)\<rparr>"
    by (rule Cons.IH) (simp_all add: a1 Cons.prems)
  then show ?case
    by (simp add: emit_bytes_def a1 add.assoc add.commute)
qed

lemma low_byte_value2: "low_byte v = of_nat (unat v mod 256)"
  by (simp add: low_byte_def low_byte_value)

text \<open>
  Claim C1. Let \<^verbatim>\<open>handle_ld\<close> parse its two operands, in pass 2 and in the code section.
  For every register pair \<open>reg\<close> among BC, DE, HL, IX, IY: \<^verbatim>\<open>ld reg,(hl)\<close> appends ED and
  the documented load-via-(HL) opcode of \<open>reg\<close> to the code written so far, \<^verbatim>\<open>ld (hl),reg\<close>
  appends ED and the store-via-(HL) opcode, and the four indexed forms append DD (IX base)
  or FD (IY base), the documented opcode for the register and base, and the low eight bits
  of the displacement; the code size and the program counter advance by the number of
  bytes appended, and nothing else changes. The documented rows are those of the table in
  the specification; the IX row is 37/3F, 37/3E, 31/3D and the IY row is 31/3E, 31/3D,
  37/3E.
\<close>

theorem ld_rr16_table_encoding:
  assumes reg: "reg \<in> {REG_BC, REG_DE, REG_HL, REG_IX, REG_IY}"
    and p1: "parse_operand (lexer_next as) = (rc1, dest, as1)" "0 \<le> rc1"
            "cur_type as1 = TOK_COMMA"
    and p2: "parse_operand (lexer_next as1) = (rc2, src, as2)" "0 \<le> rc2"
    and out: "pass as2 = 2" "current_section as2 = SECT_CODE" "code_tmp as2 = Some f"
  shows
   "(op_kind dest = OP_REG \<and> op_reg dest = reg \<and> op_kind src = OP_IND_REG \<and> op_reg src = REG_IND_HL \<longrightarrow>
       handle_ld as = (0, as2\<lparr>code_tmp := Some (f @ [0xED, spec_ld_row reg ! 0]),
                              code_size := code_size as2 + 2, pc := pc as2 + 2\<rparr>)) \<and>
    (op_kind dest = OP_IND_REG \<and> op_reg dest = REG_IND_HL \<and> op_kind src = OP_REG \<and> op_reg src = reg \<longrightarrow>
       handle_ld as = (0, as2\<lparr>code_tmp := Some (f @ [0xED, spec_ld_row reg ! 1]),
                              code_size := code_size as2 + 2, pc := pc as2 + 2\<rparr>)) \<and>
    (op_kind dest = OP_REG \<and> op_reg dest = reg \<and> op_kind src = OP_IX_OFF \<longrightarrow>
       handle_ld as = (0, as2\<lparr>code_tmp := Some (f @ [0xDD, spec_ld_row reg ! 2, of_nat (unat (op_value src) mod 256)]),
                              code_size := code_size as2 + 3, pc := pc as2 + 3\<rparr>)) \<and>
    (op_kind dest = OP_IX_OFF \<and> op_kind src = OP_REG \<and> op_reg src = reg \<longrightarrow>
       handle_ld as = (0, as2\<lparr>code_tmp := Some (f @ [0xDD, spec_ld_row reg ! 3, of_nat (unat (op_value dest) mod 256)]),
                              code_size := code_size as2 + 3, pc := pc as2 + 3\<rparr>)) \<and>
    (op_kind dest = OP_REG \<and> op_reg dest = reg \<and> op_kind src = OP_IY_OFF \<longrightarrow>
       handle_ld as = (0, as2\<lparr>code_tmp := Some (f @ [0xFD, spec_ld_row reg ! 4, of_nat (unat (op_value src) mod 256)]),
                              code_size := code_size as2 + 3, pc := pc as2 + 3\<rparr>)) \<and>
    (op_kind dest = OP_IY_OFF \<and> op_kind src = OP_REG \<and> op_reg src = reg \<longrightarrow>
       handle_ld as = (0, as2\<lparr>code_tmp := Some (f @ [0xFD, spec_ld_row reg ! 5, of_nat (unat (op_value dest) mod 256)]),
                              code_size := code_size as2 + 3, pc := pc as2 + 3\<rparr>)) \<and>
    spec_ld_row REG_BC = [0x07, 0x0F, 0x07, 0x0F, 0x07, 0x0F] \<and>
    spec_ld_row REG_DE = [0x17, 0x1F, 0x17, 0x1F, 0x17, 0x1F] \<and>
    spec_ld_row REG_HL = [0x27, 0x2F, 0x27, 0x2F, 0x27, 0x2F] \<and>
    spec_ld_row REG_IX = [0x37, 0x3F, 0x37, 0x3E, 0x31, 0x3D] \<and>
    spec_ld_row REG_IY = [0x31, 0x3E, 0x31, 0x3D, 0x37, 0x3E]"
proof -
  have hl: "handle_ld as = ld_encode as2 dest src"
    using p1 p2 by (simp add: handle_ld_def)
  note enc = ld_encode_forms[OF reg, of _ _ as2, unfolded low_byte_value2]
  have c1: "op_kind dest = OP_REG \<and> op_reg dest = reg \<and> op_kind src = OP_IND_REG \<and> op_reg src = REG_IND_HL \<longrightarrow>
       handle_ld as = (0, as2\<lparr>code_tmp := Some (f @ [0xED, spec_ld_row reg ! 0]),
                              code_size := code_size as2 + 2, pc := pc as2 + 2\<rparr>)"
  proof (intro impI, elim conjE)
    assume k: "op_kind dest = OP_REG" "op_reg dest = reg" "op_kind src = OP_IND_REG" "op_reg src = REG_IND_HL"
    have "ld_encode as2 dest src = (0, emit_bytes as2 [0xED, spec_ld_row reg ! 0])"
      using k by (simp add: enc)
    then show "handle_ld as = (0, as2\<lparr>code_tmp := Some (f @ [0xED, spec_ld_row reg ! 0]),
                              code_size := code_size as2 + 2, pc := pc as2 + 2\<rparr>)"
      by (simp add: hl emit_bytes_code[OF out])
  qed
  have c2: "op_kind dest = OP_IND_REG \<and> op_reg dest = REG_IND_HL \<and> op_kind src = OP_REG \<and> op_reg src = reg \<longrightarrow>
       handle_ld as = (0, as2\<lparr>code_tmp := Some (f @ [0xED, spec_ld_row reg ! 1]),
                              code_size := code_size as2 + 2, pc := pc as2 + 2\<rparr>)"
  proof (intro impI, elim conjE)
    assume k: "op_kind dest = OP_IND_REG" "op_reg dest = REG_IND_HL" "op_kind src = OP_REG" "op_reg src = reg"
    have "ld_encode as2 dest src = (0, emit_bytes as2 [0xED, spec_ld_row reg ! 1])"
      using k by (simp add: enc)
    then show "handle_ld as = (0, as2\<lparr>code_tmp := Some (f @ [0xED, spec_ld_row reg ! 1]),
                              code_size := code_size as2 + 2, pc := pc as2 + 2\<rparr>)"
      by (simp add: hl emit_bytes_code[OF out])
  qed
  have c3: "op_kind dest = OP_REG \<and> op_reg dest = reg \<and> op_kind src = OP_IX_OFF \<longrightarrow>
       handle_ld as = (0, as2\<lparr>code_tmp := Some (f @ [0xDD, spec_ld_row reg ! 2, of_nat (unat (op_value src) mod 256)]),
                              code_size := code_size as2 + 3, pc := pc as2 + 3\<rparr>)"
  proof (intro impI, elim conjE)
    assume k: "op_kind dest = OP_REG" "op_reg dest = reg" "op_kind src = OP_IX_OFF"
    have "ld_encode as2 dest src = (0, emit_bytes as2 [0xDD, spec_ld_row reg ! 2, of_nat (unat (op_value src) mod 256)])"
      using k by (simp add: enc)
    then show "handle_ld as = (0, as2\<lparr>code_tmp := Some (f @ [0xDD, spec_ld_row reg ! 2, of_nat (unat (op_value src) mod 256)]),
                              code_size := code_size as2 + 3, pc := pc as2 + 3\<rparr>)"
      by (simp add: hl emit_bytes_code[OF out])
  qed
  have c4: "op_kind dest = OP_IX_OFF \<and> op_kind src = OP_REG \<and> op_reg src = reg \<longrightarrow>
       handle_ld as = (0, as2\<lparr>code_tmp := Some (f @ [0xDD, spec_ld_row reg ! 3, of_nat (unat (op_value dest) mod 256)]),
                              code_size := code_size as2 + 3, pc := pc as2 + 3\<rparr>)"
  proof (intro impI, elim conjE)
    assume k: "op_kind dest = OP_IX_OFF" "op_kind src = OP_REG" "op_reg src = reg"
    have "ld_encode as2 dest src = (0, emit_bytes as2 [0xDD, spec_ld_row reg ! 3, of_nat (unat (op_value dest) mod 256)])"
      using k by (simp add: enc)
    then show "handle_ld as = (0, as2\<lparr>code_tmp := Some (f @ [0xDD, spec_ld_row reg ! 3, of_nat (unat (op_value dest) mod 256)]),
                              code_size := code_size as2 + 3, pc := pc as2 + 3\<rparr>)"
      by (simp add: hl emit_bytes_code[OF out])
  qed
  have c5: "op_kind dest = OP_REG \<and> op_reg dest = reg \<and> op_kind src = OP_IY_OFF \<longrightarrow>
       handle_ld as = (0, as2\<lparr>code_tmp := Some (f @ [0xFD, spec_ld_row reg ! 4, of_nat (unat (op_value src) mod 256)]),
                              code_size := code_size as2 + 3, pc := pc as2 + 3\<rparr>)"
  proof (intro impI, elim conjE)
    assume k: "op_kind dest = OP_REG" "op_reg dest = reg" "op_kind src = OP_IY_OFF"
    have "ld_encode as2 dest src = (0, emit_bytes as2 [0xFD, spec_ld_row reg ! 4, of_nat (unat (op_value src) mod 256)])"
      using k by (simp add: enc)
    then show "handle_ld as = (0, as2\<lparr>code_tmp := Some (f @ [0xFD, spec_ld_row reg ! 4, of_nat (unat (op_value src) mod 256)]),
                              code_size := code_size as2 + 3, pc := pc as2 + 3\<rparr>)"
      by (simp add: hl emit_bytes_code[OF out])
  qed
  have c6: "op_kind dest = OP_IY_OFF \<and> op_kind src = OP_REG \<and> op_reg src = reg \<longrightarrow>
       handle_ld as = (0, as2\<lparr>code_tmp := Some (f @ [0xFD, spec_ld_row reg ! 5, of_nat (unat (op_value dest) mod 256)]),
                              code_size := code_size as2 + 3, pc := pc as2 + 3\<rparr>)"
  proof (intro impI, elim conjE)
    assume k: "op_kind dest = OP_IY_OFF" "op_kind src = OP_REG" "op_reg src = reg"
    have "ld_encode as2 dest src = (0, emit_bytes as2 [0xFD, spec_ld_row reg ! 5, of_nat (unat (op_value dest) mod 256)])"
      using k by (simp add: enc)
    then show "handle_ld as = (0, as2\<lparr>code_tmp := Some (f @ [0xFD, spec_ld_row reg ! 5, of_nat (unat (op_value dest) mod 256)]),
                              code_size := code_size as2 + 3, pc := pc as2 + 3\<rparr>)"
      by (simp add: hl emit_bytes_code[OF out])
  qed
  have rows: "spec_ld_row REG_BC = [0x07, 0x0F, 0x07, 0x0F, 0x07, 0x0F]"
    "spec_ld_row REG_DE = [0x17, 0x1F, 0x17, 0x1F, 0x17, 0x1F]"
    "spec_ld_row REG_HL = [0x27, 0x2F, 0x27, 0x2F, 0x27, 0x2F]"
    "spec_ld_row REG_IX = [0x37, 0x3F, 0x37, 0x3E, 0x31, 0x3D]"
    "spec_ld_row REG_IY = [0x31, 0x3E, 0x31, 0x3D, 0x37, 0x3E]"
    by (simp_all add: spec_ld_row_def reg_defs)
  show ?thesis by (intro conjI c1 c2 c3 c4 c5 c6 rows)
qed

lemmas ld_eval = asm_text_def at_eol_def after_dest_def pass2_init_def asm_init_def parse_defs
  lex_defs operand_defs reg_operand_def idx_operand_def ind_hl_operand_def

lemma parse_ix_hl:
  "parse_operand (lexer_next (asm_text ''ld ix,(hl)'')) = (0, reg_operand REG_IX, after_dest ''(hl)'')"
  "parse_operand (lexer_next (after_dest ''(hl)'')) = (0, ind_hl_operand, at_eol)"
  by (simp_all add: ld_eval)

lemma parse_hl_iy:
  "parse_operand (lexer_next (asm_text ''ld (hl),iy'')) = (0, ind_hl_operand, after_dest ''iy'')"
  "parse_operand (lexer_next (after_dest ''iy'')) = (0, reg_operand REG_IY, at_eol)"
  by (simp_all add: ld_eval)

lemma parse_iy_ix:
  "parse_operand (lexer_next (asm_text ''ld iy,(ix+5)'')) = (0, reg_operand REG_IY, after_dest ''(ix+5)'')"
  "parse_operand (lexer_next (after_dest ''(ix+5)'')) = (0, idx_operand OP_IX_OFF 5, at_eol)"
  by (simp_all add: ld_eval)

lemma parse_ix_iy_store:
  "parse_operand (lexer_next (asm_text ''ld (ix-2),iy'')) = (0, idx_operand OP_IX_OFF (- 2), after_dest ''iy'')"
  "parse_operand (lexer_next (after_dest ''iy'')) = (0, reg_operand REG_IY, at_eol)"
  by (simp_all add: ld_eval)

lemma parse_ix_iy:
  "parse_operand (lexer_next (asm_text ''ld ix,(iy+5)'')) = (0, reg_operand REG_IX, after_dest ''(iy+5)'')"
  "parse_operand (lexer_next (after_dest ''(iy+5)'')) = (0, idx_operand OP_IY_OFF 5, at_eol)"
  by (simp_all add: ld_eval)

lemma parse_iy_bc:
  "parse_operand (lexer_next (asm_text ''ld (iy+127),bc'')) = (0, idx_operand OP_IY_OFF 127, after_dest ''bc'')"
  "parse_operand (lexer_next (after_dest ''bc'')) = (0, reg_operand REG_BC, at_eol)"
  by (simp_all add: ld_eval)

theorem ld_rr16_table_encoding_witness:
  "REG_IX \<in> {REG_BC, REG_DE, REG_HL, REG_IX, REG_IY} \<and>
   parse_operand (lexer_next (asm_text ''ld ix,(hl)'')) = (0, reg_operand REG_IX, after_dest ''(hl)'') \<and>
   cur_type (after_dest ''(hl)'') = TOK_COMMA \<and>
   parse_operand (lexer_next (after_dest ''(hl)'')) = (0, ind_hl_operand, at_eol) \<and>
   pass at_eol = 2 \<and> current_section at_eol = SECT_CODE \<and> code_tmp at_eol = Some [] \<and>
   op_kind (reg_operand REG_IX) = OP_REG \<and> op_reg (reg_operand REG_IX) = REG_IX \<and>
   op_kind ind_hl_operand = OP_IND_REG \<and> op_reg ind_hl_operand = REG_IND_HL \<and>
   handle_ld (asm_text ''ld ix,(hl)'') =
     (0, at_eol\<lparr>code_tmp := Some [0xED, 0x37], code_size := 2, pc := 2\<rparr>) \<and>
   handle_ld (asm_text ''ld (hl),iy'') =
     (0, at_eol\<lparr>code_tmp := Some [0xED, 0x3E], code_size := 2, pc := 2\<rparr>) \<and>
   handle_ld (asm_text ''ld iy,(ix+5)'') =
     (0, at_eol\<lparr>code_tmp := Some [0xDD, 0x31, 0x05], code_size := 3, pc := 3\<rparr>) \<and>
   handle_ld (asm_text ''ld (ix-2),iy'') =
     (0, at_eol\<lparr>code_tmp := Some [0xDD, 0x3D, 0xFE], code_size := 3, pc := 3\<rparr>) \<and>
   handle_ld (asm_text ''ld ix,(iy+5)'') =
     (0, at_eol\<lparr>code_tmp := Some [0xFD, 0x31, 0x05], code_size := 3, pc := 3\<rparr>) \<and>
   handle_ld (asm_text ''ld (iy+127),bc'') =
     (0, at_eol\<lparr>code_tmp := Some [0xFD, 0x0F, 0x7F], code_size := 3, pc := 3\<rparr>)"
proof -
  have st: "pass at_eol = 2" "current_section at_eol = SECT_CODE" "code_tmp at_eol = Some []"
    "cur_type (after_dest l) = TOK_COMMA" for l
    by (simp_all add: at_eol_def after_dest_def pass2_init_def asm_init_def mk_token_def)
  have ops: "op_kind (reg_operand r) = OP_REG" "op_reg (reg_operand r) = r"
    "op_kind ind_hl_operand = OP_IND_REG" "op_reg ind_hl_operand = REG_IND_HL"
    "op_kind (idx_operand k v) = k" "op_value (idx_operand k v) = v" for r k v
    by (simp_all add: reg_operand_def ind_hl_operand_def idx_operand_def operand_init_def)
  have m: "REG_IX \<in> {REG_BC, REG_DE, REG_HL, REG_IX, REG_IY}"
    "REG_IY \<in> {REG_BC, REG_DE, REG_HL, REG_IX, REG_IY}"
    "REG_BC \<in> {REG_BC, REG_DE, REG_HL, REG_IX, REG_IY}" by simp_all
  have z: "code_size at_eol = 0" "pc at_eol = 0"
    by (simp_all add: at_eol_def pass2_init_def asm_init_def)
  have r_ix_hl: "handle_ld (asm_text ''ld ix,(hl)'') =
     (0, at_eol\<lparr>code_tmp := Some [0xED, 0x37], code_size := 2, pc := 2\<rparr>)"
    using ld_rr16_table_encoding[OF m(1) parse_ix_hl(1) _ st(4) parse_ix_hl(2) _ st(1,2,3)]
    by (simp add: ops z)
  have r_hl_iy: "handle_ld (asm_text ''ld (hl),iy'') =
     (0, at_eol\<lparr>code_tmp := Some [0xED, 0x3E], code_size := 2, pc := 2\<rparr>)"
    using ld_rr16_table_encoding[OF m(2) parse_hl_iy(1) _ st(4) parse_hl_iy(2) _ st(1,2,3)]
    by (simp add: ops z)
  have r_iy_ix: "handle_ld (asm_text ''ld iy,(ix+5)'') =
     (0, at_eol\<lparr>code_tmp := Some [0xDD, 0x31, 0x05], code_size := 3, pc := 3\<rparr>)"
    using ld_rr16_table_encoding[OF m(2) parse_iy_ix(1) _ st(4) parse_iy_ix(2) _ st(1,2,3)]
    by (simp add: ops z)
  have r_ix_iy_store: "handle_ld (asm_text ''ld (ix-2),iy'') =
     (0, at_eol\<lparr>code_tmp := Some [0xDD, 0x3D, 0xFE], code_size := 3, pc := 3\<rparr>)"
    using ld_rr16_table_encoding[OF m(2) parse_ix_iy_store(1) _ st(4) parse_ix_iy_store(2) _ st(1,2,3)]
    by (simp add: ops z)
  have r_ix_iy: "handle_ld (asm_text ''ld ix,(iy+5)'') =
     (0, at_eol\<lparr>code_tmp := Some [0xFD, 0x31, 0x05], code_size := 3, pc := 3\<rparr>)"
    using ld_rr16_table_encoding[OF m(1) parse_ix_iy(1) _ st(4) parse_ix_iy(2) _ st(1,2,3)]
    by (simp add: ops z)
  have r_iy_bc: "handle_ld (asm_text ''ld (iy+127),bc'') =
     (0, at_eol\<lparr>code_tmp := Some [0xFD, 0x0F, 0x7F], code_size := 3, pc := 3\<rparr>)"
    using ld_rr16_table_encoding[OF m(3) parse_iy_bc(1) _ st(4) parse_iy_bc(2) _ st(1,2,3)]
    by (simp add: ops z)
  show ?thesis
    by (intro conjI m(1) parse_ix_hl st ops r_ix_hl r_hl_iy r_iy_ix r_ix_iy_store r_ix_iy r_iy_bc)
qed


section \<open>ds with a negative count\<close>

text \<open>
  Claim C10. If the count expression of a \<^verbatim>\<open>ds\<close> directive evaluates to a negative value,
  the directive emits no bytes (the temporary code and data files are unchanged) and leaves
  the program counter, the saved per-section program counters and the three section size
  counters unchanged.
\<close>

theorem dir_ds_negative_count:
  assumes "sint (fst (snd (parse_expression (lexer_next as)))) < 0"
  shows "pc (snd (dir_ds as)) = pc as
       \<and> code_size (snd (dir_ds as)) = code_size as
       \<and> data_size (snd (dir_ds as)) = data_size as
       \<and> bss_size (snd (dir_ds as)) = bss_size as
       \<and> code_tmp (snd (dir_ds as)) = code_tmp as
       \<and> data_tmp (snd (dir_ds as)) = data_tmp as
       \<and> code_pc (snd (dir_ds as)) = code_pc as
       \<and> data_pc (snd (dir_ds as)) = data_pc as
       \<and> bss_pc (snd (dir_ds as)) = bss_pc as"
  using outside_cursor_fields[OF dir_ds_negative_frame[OF assms]] by simp

lemma ds_ex_parse:
  "parse_expression (lexer_next (asm_text ''ds 0-3,7'')) =
     (False, -3, [], pass2_init\<lparr>line_ptr := ''7'', current_token := mk_token TOK_COMMA '','' 0\<rparr>)"
  by (simp add: asm_text_def pass2_init_def asm_init_def parse_defs lex_defs)

theorem dir_ds_negative_count_witness:
  "sint (fst (snd (parse_expression (lexer_next (asm_text ''ds 0-3,7''))))) < 0
   \<and> fst (dir_ds (asm_text ''ds 0-3,7'')) = 0
   \<and> pc (snd (dir_ds (asm_text ''ds 0-3,7''))) = 0
   \<and> code_size (snd (dir_ds (asm_text ''ds 0-3,7''))) = 0
   \<and> code_tmp (snd (dir_ds (asm_text ''ds 0-3,7''))) = Some []"
  using dir_ds_negative_count [of "asm_text ''ds 0-3,7''"]
  apply (simp add: ds_ex_parse)
  apply (simp add: dir_ds_def ds_ex_parse)
  apply (simp add: asm_text_def pass2_init_def asm_init_def lexer_next_def lexer_init_def split: prod.splits)
  done


section \<open>Division by zero\<close>






end
